theory Spec2Isabelle
  imports Complex_Main "HOL-Library.Log_Nat" "HOL-Library.Word"
begin

chapter \<open>The djxl command-line decoder (tools/djxl_main.cc)\<close>

text \<open>
  A shallow embedding of the decode orchestrator of \<^verbatim>\<open>tools/djxl_main.cc\<close>: the filename
  deriver \<^verbatim>\<open>Filename\<close>, the pixel-format negotiator \<^verbatim>\<open>AddFormatsWithAlphaChannel\<close>, the
  background parser \<^verbatim>\<open>ParseBackgroundColor\<close> and the control flow of \<^verbatim>\<open>main\<close>. The codec
  library, the command-line parser and the file system are collaborators whose code is
  not part of this file; they appear as parameters of the model.
\<close>

section \<open>Definitions\<close>

subsection \<open>Filename (lines 286-309)\<close>

text \<open>
  \<^verbatim>\<open>printf\<close>'s \<^verbatim>\<open>%d\<close> of a non-negative number: its decimal digits, most significant first.
\<close>

definition digit_char :: "nat \<Rightarrow> char" where
  "digit_char d = ''0123456789'' ! d"

fun dec :: "nat \<Rightarrow> string" where
  "dec n = (if n < 10 then [digit_char n] else dec (n div 10) @ [digit_char (n mod 10)])"

declare dec.simps [simp del]

text \<open>
  \<^verbatim>\<open>"%0*d"\<close> with field width \<open>w\<close>: zeros fill the field up to \<open>w\<close> characters, after the
  sign when the number is negative; a number wider than the field is printed in full.
\<close>

definition printf_0d :: "nat \<Rightarrow> int \<Rightarrow> string" where
  "printf_0d w v =
     (if v < 0
      then CHR ''-'' # replicate (w - 1 - length (dec (nat (- v)))) CHR ''0'' @ dec (nat (- v))
      else replicate (w - length (dec (nat v))) CHR ''0'' @ dec (nat v))"

text \<open>
  \<^verbatim>\<open>snprintf(buf.data(), buf.size(), ...)\<close> followed by \<^verbatim>\<open>out.append(buf.data())\<close>: at most
  \<open>buf.size() - 1\<close> characters of the formatted text reach the output; the last byte of
  the buffer is the terminating NUL.
\<close>

definition snprintf :: "nat \<Rightarrow> string \<Rightarrow> string" where
  "snprintf bufsize s = take (bufsize - 1) s"

text \<open>
  The lambda \<^verbatim>\<open>digits = [](int n) { return 1 + static_cast<int>(std::log10(n)); }\<close>.
  \<^const>\<open>floorlog\<close> is \<open>nat \<lfloor>log b n\<rfloor> + 1\<close> for \<open>n > 0\<close> (lemma \<open>digits_log\<close> below).
  The source calls it for \<open>n > 1\<close> only. The double-precision \<^verbatim>\<open>std::log10\<close> is taken to
  round to the exact value at the powers of ten, so that the truncation is the
  mathematical floor.
\<close>

definition digits :: "int \<Rightarrow> nat" where
  "digits n = floorlog 10 (nat n)"

text \<open>
  The \<^verbatim>\<open>int\<close> parameters are modelled as unbounded integers: the function only compares
  and prints them.
\<close>

definition Filename :: "string \<Rightarrow> string \<Rightarrow> int \<Rightarrow> int \<Rightarrow> int \<Rightarrow> int \<Rightarrow> string" where
  "Filename filename extension layer_index frame_index num_layers num_frames =
     (if filename = ''-'' then ''-''
      else
        let out = filename;
            out = (if num_frames > 1
                   then out @ snprintf (2 + digits num_frames)
                                (''-'' @ printf_0d (digits num_frames) frame_index)
                   else out);
            out = (if num_layers > 1 \<and> layer_index > 0
                   then out @ snprintf (4 + digits num_layers)
                                (''-ec'' @ printf_0d (digits num_layers) layer_index)
                   else out)
        in if extension = ''.ppm'' \<and> layer_index > 0 then out @ ''.pgm''
           else if num_frames > 1 \<or> (num_layers > 1 \<and> layer_index > 0) then out @ extension
           else out)"

text \<open>
  The specification's vocabulary for the derived path: an index ``zero-padded to \<open>k\<close>
  digits'' is its decimal numeral with zeros in front, \<open>k\<close> characters in all; the three
  suffixes are the frame suffix, the extra-channel suffix and the extension.
\<close>

definition zero_pad :: "nat \<Rightarrow> nat \<Rightarrow> string" where
  "zero_pad k n = replicate (k - length (dec n)) CHR ''0'' @ dec n"

definition digit_val :: "char \<Rightarrow> nat" where
  "digit_val c = of_char c - 48"

definition undec :: "string \<Rightarrow> nat" where
  "undec s = foldl (\<lambda>a c. 10 * a + digit_val c) 0 s"

definition frame_suffix_of :: "int \<Rightarrow> int \<Rightarrow> string" where
  "frame_suffix_of num_frames frame_index =
     (if num_frames > 1 then ''-'' @ zero_pad (digits num_frames) (nat frame_index) else [])"

definition layer_suffix_of :: "int \<Rightarrow> int \<Rightarrow> string" where
  "layer_suffix_of num_layers layer_index =
     (if num_layers > 1 \<and> layer_index > 0
      then ''-ec'' @ zero_pad (digits num_layers) (nat layer_index) else [])"

definition extension_suffix_of :: "string \<Rightarrow> int \<Rightarrow> int \<Rightarrow> int \<Rightarrow> string" where
  "extension_suffix_of extension num_layers num_frames layer_index =
     (if extension = ''.ppm'' \<and> layer_index > 0 then ''.pgm''
      else if num_frames > 1 \<or> (num_layers > 1 \<and> layer_index > 0) then extension
      else [])"

subsection \<open>AddFormatsWithAlphaChannel (lines 311-331)\<close>

text \<open>
  \<^verbatim>\<open>JxlPixelFormat\<close>, \<^verbatim>\<open>JxlDataType\<close> and \<^verbatim>\<open>JxlEndianness\<close> are declared in \<^verbatim>\<open>jxl/types.h\<close>.
  The comparison in \<^verbatim>\<open>add_format\<close> (``must reflect changes in JxlPixelFormat'') reads the
  four fields below, so equality of records is the structural identity of formats.
\<close>

datatype JxlDataType = JXL_TYPE_FLOAT | JXL_TYPE_UINT8 | JXL_TYPE_UINT16 | JXL_TYPE_FLOAT16

datatype JxlEndianness = JXL_NATIVE_ENDIAN | JXL_LITTLE_ENDIAN | JXL_BIG_ENDIAN

record JxlPixelFormat =
  num_channels :: "32 word"
  data_type :: JxlDataType
  endianness :: JxlEndianness
  align :: nat

text \<open>The loop of the lambda \<^verbatim>\<open>add_format\<close>: is a format with the same four fields there?\<close>

fun has_format :: "JxlPixelFormat list \<Rightarrow> JxlPixelFormat \<Rightarrow> bool" where
  "has_format [] format = False"
| "has_format (f # fs) format =
     (if num_channels f = num_channels format \<and> data_type f = data_type format \<and>
         endianness f = endianness format \<and> align f = align format
      then True else has_format fs format)"

definition add_format :: "JxlPixelFormat list \<Rightarrow> JxlPixelFormat \<Rightarrow> JxlPixelFormat list" where
  "add_format formats format = (if has_format formats format then formats else formats @ [format])"

text \<open>
  The \<^verbatim>\<open>for\<close> loop over the first \<open>num_formats\<close> entries. The vector only grows, so
  \<open>formats ! i\<close> is always inside it.
\<close>

function alpha_loop :: "nat \<Rightarrow> nat \<Rightarrow> JxlPixelFormat list \<Rightarrow> JxlPixelFormat list" where
  "alpha_loop i num_formats formats =
     (if i < num_formats
      then (let format = formats ! i
            in if num_channels format = 1 \<or> num_channels format = 3
               then alpha_loop (i + 1) num_formats
                      (add_format formats (format\<lparr>num_channels := num_channels format + 1\<rparr>))
               else alpha_loop (i + 1) num_formats formats)
      else formats)"
  by pat_completeness auto
termination
  by (relation "measure (\<lambda>(i, num_formats, formats). num_formats - i)") auto

declare alpha_loop.simps [simp del]

definition AddFormatsWithAlphaChannel :: "JxlPixelFormat list \<Rightarrow> JxlPixelFormat list" where
  "AddFormatsWithAlphaChannel formats = alpha_loop 0 (length formats) formats"

text \<open>
  The specification's vocabulary: a format that gets an alpha variant (gray or RGB), and
  the variant: one channel more, the same sample type, endianness and alignment.
\<close>

definition wants_alpha :: "JxlPixelFormat \<Rightarrow> bool" where
  "wants_alpha f = (num_channels f = 1 \<or> num_channels f = 3)"

definition alpha_variant :: "JxlPixelFormat \<Rightarrow> JxlPixelFormat" where
  "alpha_variant f =
     \<lparr>num_channels = num_channels f + 1, data_type = data_type f,
      endianness = endianness f, align = align f\<rparr>"

definition added_upto :: "JxlPixelFormat list \<Rightarrow> nat \<Rightarrow> JxlPixelFormat list" where
  "added_upto formats i =
     filter (\<lambda>v. v \<notin> set formats) (map alpha_variant (filter wants_alpha (take i formats)))"

subsection \<open>ParseBackgroundColor (lines 333-351)\<close>

text \<open>
  \<^verbatim>\<open>std::stoi(str, nullptr, 16)\<close> is \<^verbatim>\<open>strtol\<close> in base 16 with the range check of \<^verbatim>\<open>int\<close>:
  leading white space is skipped, one sign is accepted, a \<^verbatim>\<open>0x\<close> or \<^verbatim>\<open>0X\<close> prefix is skipped
  when a hexadecimal digit follows it, and the longest run of hexadecimal digits is read.
  No digit at all throws \<^verbatim>\<open>std::invalid_argument\<close>; a value outside \<^verbatim>\<open>int\<close> throws
  \<^verbatim>\<open>std::out_of_range\<close>. With \<^verbatim>\<open>nullptr\<close> for the position, what follows the digits is
  ignored.
\<close>

datatype cxx_exception = invalid_argument | out_of_range

definition isspace_c :: "char \<Rightarrow> bool" where
  "isspace_c c = (of_char c \<in> {32, 9, 10, 11, 12, 13 :: nat})"

definition hex_val :: "char \<Rightarrow> nat option" where
  "hex_val c =
     (let k = (of_char c :: nat)
      in if 48 \<le> k \<and> k \<le> 57 then Some (k - 48)
         else if 97 \<le> k \<and> k \<le> 102 then Some (k - 87)
         else if 65 \<le> k \<and> k \<le> 70 then Some (k - 55)
         else None)"

definition is_hex :: "char \<Rightarrow> bool" where
  "is_hex c = (hex_val c \<noteq> None)"

definition hex_number :: "string \<Rightarrow> nat" where
  "hex_number ds = foldl (\<lambda>a c. 16 * a + the (hex_val c)) 0 ds"

definition skip_sign :: "string \<Rightarrow> bool \<times> string" where
  "skip_sign s =
     (case s of
        c # r \<Rightarrow> if c = CHR ''-'' then (True, r) else if c = CHR ''+'' then (False, r)
                 else (False, s)
      | [] \<Rightarrow> (False, s))"

definition skip_0x :: "string \<Rightarrow> string" where
  "skip_0x s =
     (case s of
        z # x # h # r \<Rightarrow>
          if z = CHR ''0'' \<and> (x = CHR ''x'' \<or> x = CHR ''X'') \<and> is_hex h then h # r else s
      | _ \<Rightarrow> s)"

definition stoi16 :: "string \<Rightarrow> cxx_exception + int" where
  "stoi16 str =
     (let (negative, s) = skip_sign (dropWhile isspace_c str);
          ds = takeWhile is_hex (skip_0x s)
      in if ds = [] then Inl invalid_argument
         else let v = (if negative then - int (hex_number ds) else int (hex_number ds))
              in if v < - (2 ^ 31) \<or> 2 ^ 31 - 1 < v then Inl out_of_range else Inr v)"

text \<open>
  A \<^verbatim>\<open>float\<close> is modelled by the rational number it holds. \<^verbatim>\<open>1.0f / 255\<close> is the binary32
  number nearest to 1/255, \<open>8421505 \<cdot> 2\<^sup>-\<^sup>3\<^sup>1\<close> (bit pattern \<^verbatim>\<open>0x3B808081\<close>; lemma
  \<open>f32_inv255_nearest\<close> below). The product of a channel value and this constant is rounded
  to 24 significant bits, ties to even, as IEEE 754 multiplication in binary32 does;
  \<open>round24 p\<close> rounds the numerator of \<open>p \<cdot> 2\<^sup>-\<^sup>3\<^sup>1\<close>.
\<close>

type_synonym f32 = rat

definition round24 :: "nat \<Rightarrow> nat" where
  "round24 p =
     (let l = floorlog 2 p
      in if l \<le> 24 then p
         else let s = l - 24; q = p div 2 ^ s; r = p mod 2 ^ s; h = 2 ^ (s - 1)
              in (if h < r \<or> (r = h \<and> odd q) then q + 1 else q) * 2 ^ s)"

definition times_inv255 :: "nat \<Rightarrow> f32" where
  "times_inv255 c = of_nat (round24 (c * 8421505)) / 2 ^ 31"

unbundle bit_operations_syntax

text \<open>
  The channel arithmetic of lines 346-349 on the \<^verbatim>\<open>uint32_t\<close> colour: the conversion from
  \<^verbatim>\<open>int\<close> wraps modulo \<open>2\<^sup>3\<^sup>2\<close>.
\<close>

definition color_channels :: "32 word \<Rightarrow> f32 \<times> f32 \<times> f32" where
  "color_channels color =
     (times_inv255 (unat (drop_bit 16 color AND 0xff)),
      times_inv255 (unat (drop_bit 8 color AND 0xff)),
      times_inv255 (unat (color AND 0xff)))"

text \<open>
  The result is the exception that leaves the function, or the returned \<^verbatim>\<open>bool\<close> together
  with the content of the array \<^verbatim>\<open>background\<close>: \<open>None\<close> when the function did not write it.
\<close>

definition ParseBackgroundColor ::
  "string \<Rightarrow> cxx_exception + (bool \<times> (f32 \<times> f32 \<times> f32) option)" where
  "ParseBackgroundColor background_desc =
     (if background_desc = ''black'' then Inr (True, Some (0, 0, 0))
      else if background_desc = ''white'' then Inr (True, Some (1, 1, 1))
      else if length background_desc \<noteq> 7 \<or> background_desc ! 0 \<noteq> CHR ''#''
        then Inr (False, None)
      else case stoi16 (drop 1 background_desc) of
             Inl e \<Rightarrow> Inl e
           | Inr v \<Rightarrow> Inr (True, Some (color_channels (word_of_int v))))"

text \<open>
  The specification's reading of a hexadecimal colour: the value of the longest run of
  hexadecimal digits at the start of a text.
\<close>

definition hex_prefix_value :: "string \<Rightarrow> nat" where
  "hex_prefix_value s = hex_number (takeWhile is_hex s)"

subsection \<open>The arguments and the collaborators of main\<close>

type_synonym bytes = "8 word list"

text \<open>The struct \<^verbatim>\<open>DecompressArgs\<close> (lines 240-270), as \<^verbatim>\<open>cmdline.Parse\<close> has filled it.\<close>

record DecompressArgs =
  file_in :: "string option"
  file_out :: "string option"
  output_format :: string
  version :: bool
  verbose :: bool
  num_reps :: nat
  disable_output :: bool
  num_threads :: int
  bits_per_sample :: int
  display_nits :: rat
  color_space :: string
  downsampling :: nat
  allow_partial_files :: bool
  pixels_to_jpeg :: bool
  jpeg_quality :: nat
  use_sjpeg :: bool
  render_spotcolors :: bool
  coalescing :: bool
  output_extra_channels :: bool
  output_frames :: bool
  preview_out :: string
  icc_out :: string
  orig_icc_out :: string
  metadata_out :: string
  background_spec :: string
  alpha_blend :: bool
  print_read_bytes :: bool
  quiet :: bool
  opt_bits_per_sample_id :: int
  opt_jpeg_quality_id :: int

text \<open>\<^verbatim>\<open>jxl::extras::Codec\<close>, declared in \<^verbatim>\<open>lib/extras/dec/decode.h\<close>.\<close>

datatype Codec = kUnknown | kPNG | kPNM | kPGX | kJPG | kGIF | kEXR | kJXL

text \<open>The fields of \<^verbatim>\<open>jxl::extras::EncodedImage\<close> that \<^verbatim>\<open>main\<close> reads.\<close>

record EncodedImage =
  bitstreams :: "bytes list"
  extra_channel_bitstreams :: "bytes list list"
  preview_bitstream :: bytes
  metadata :: bytes

text \<open>
  A \<^verbatim>\<open>jxl::extras::Encoder\<close>: its accepted formats, its CMYK capability, and \<^verbatim>\<open>Encode\<close>, which
  gets the options set by \<^verbatim>\<open>SetOption\<close> and the decoded image and returns the encoded
  image, or \<open>None\<close> when it fails. The type \<open>'p\<close> stands for
  \<^verbatim>\<open>jxl::extras::PackedPixelFile\<close>.
\<close>

record 'p Encoder =
  AcceptedFormats :: "JxlPixelFormat list"
  AcceptsCmyk :: bool
  Encode :: "(string \<times> string) list \<Rightarrow> 'p \<Rightarrow> EncodedImage option"

text \<open>
  The code outside this file that \<^verbatim>\<open>main\<close> calls. The two decode calls take the number of
  the repetition, so that a repeated call may answer differently each time.
  \<^item> \<open>DecodeImageJXL_jpeg i allow_partial compressed jpeg_bytes\<close> is the call of line 364:
    the status, and the content of the vector \<^verbatim>\<open>jpeg_bytes\<close> when the call returns.
  \<^item> \<open>DecodeImageJXL_pixels i args accepted_formats accepts_cmyk compressed ppf
    decoded_bytes\<close> is the call of line 401: the status and the new values of \<^verbatim>\<open>ppf\<close> and
    \<^verbatim>\<open>decoded_bytes\<close>.
  \<^item> \<open>AlphaBlend ppf background\<close>: the status and the new \<^verbatim>\<open>ppf\<close>; the background is
    \<open>None\<close> when the array was never written.
\<close>

record 'p env =
  argv0 :: string
  version_string :: string
  Parse_ok :: bool
  HelpFlagPassed :: bool
  option_matched :: "int \<Rightarrow> bool"
  ReadFile :: "string \<Rightarrow> bytes option"
  CodecFromPath :: "string \<Rightarrow> string \<Rightarrow> Codec \<times> string"
  DefaultNumWorkerThreads :: nat
  DecodeImageJXL_jpeg :: "nat \<Rightarrow> bool \<Rightarrow> bytes \<Rightarrow> bytes \<Rightarrow> bool \<times> bytes"
  DecodeImageJXL_pixels ::
    "nat \<Rightarrow> DecompressArgs \<Rightarrow> JxlPixelFormat list \<Rightarrow> bool \<Rightarrow> bytes \<Rightarrow> 'p \<Rightarrow> nat
      \<Rightarrow> bool \<times> 'p \<times> nat"
  new_ppf :: 'p
  ppf_icc :: "'p \<Rightarrow> bytes"
  ppf_orig_icc :: "'p \<Rightarrow> bytes"
  Encoder_FromExtension :: "string \<Rightarrow> 'p Encoder option"
  AlphaBlend :: "'p \<Rightarrow> (f32 \<times> f32 \<times> f32) option \<Rightarrow> bool \<times> 'p"
  WriteFile :: "string \<Rightarrow> bytes \<Rightarrow> bool"

subsection \<open>What a run of main does\<close>

text \<open>
  A run is the list of its effects, in order, and the way it ends. Messages are recorded
  without their final newline. The calls of the collaborators are recorded with what the
  claims need of their arguments and results: a reconstruct call with its status and the
  size of the byte vector when it returns, a pixel decode call with the format list and
  the CMYK flag it was given and its status. \<open>EnterReconstruct\<close> and \<open>EnterPixelDecode\<close>
  mark the entry into the block of line 510 and into the block of line 535.
\<close>

datatype output_kind = ReconstructedJpeg | MainOutput | OptionalOutput

datatype event =
    Stderr string
  | Stdout string
  | VerbosePrintf nat string
  | PrintHelp
  | EnterReconstruct
  | EnterPixelDecode
  | CallReconstruct bool nat
  | CallDecodeToPixels "JxlPixelFormat list" bool bool
  | NotifyElapsed
  | SetImageSize
  | SetFileSize nat
  | CallAlphaBlend "(f32 \<times> f32 \<times> f32) option" bool
  | CallEncode "(string \<times> string) list" bool
  | CallWriteFile output_kind string bytes bool
  | StatsPrint nat

text \<open>
  The exit status of the process. An exception that nothing catches ends the process
  through \<^verbatim>\<open>std::terminate\<close>; reading a vector outside its bounds is undefined behaviour.
\<close>

datatype exit_status = EXIT_SUCCESS | EXIT_FAILURE | Terminate cxx_exception | Undefined

type_synonym 'a run = "event list \<times> (exit_status + 'a)"

definition ret :: "'a \<Rightarrow> 'a run" where
  "ret a = ([], Inr a)"

definition exit_with :: "exit_status \<Rightarrow> 'a run" where
  "exit_with st = ([], Inl st)"

definition emit :: "event \<Rightarrow> unit run" where
  "emit e = ([e], Inr ())"

definition emit_if :: "bool \<Rightarrow> event \<Rightarrow> unit run" where
  "emit_if b e = (if b then [e] else [], Inr ())"

definition bind :: "'a run \<Rightarrow> ('a \<Rightarrow> 'b run) \<Rightarrow> 'b run" where
  "bind m f =
     (case m of
        (es, Inl st) \<Rightarrow> (es, Inl st)
      | (es, Inr a) \<Rightarrow> (case f a of (es', r) \<Rightarrow> (es @ es', r)))"

definition after :: "event list \<Rightarrow> 'a run \<Rightarrow> 'a run" where
  "after es m = (es @ fst m, snd m)"

subsection \<open>The two decode functions (lines 353-411)\<close>

definition DecompressJxlReconstructJPEG ::
  "'p env \<Rightarrow> DecompressArgs \<Rightarrow> bytes \<Rightarrow> nat \<Rightarrow> bytes \<Rightarrow> event list \<times> bool \<times> bytes" where
  "DecompressJxlReconstructJPEG env args compressed i jpeg_bytes =
     (case DecodeImageJXL_jpeg env i (allow_partial_files args) compressed jpeg_bytes of
        (ok, jpeg_bytes') \<Rightarrow>
          if \<not> ok then ([CallReconstruct False (length jpeg_bytes')], False, jpeg_bytes')
          else ([CallReconstruct True (length jpeg_bytes'), NotifyElapsed, SetImageSize,
                 SetFileSize (length jpeg_bytes')], True, jpeg_bytes'))"

definition DecompressJxlToPackedPixelFile ::
  "'p env \<Rightarrow> DecompressArgs \<Rightarrow> bytes \<Rightarrow> JxlPixelFormat list \<Rightarrow> bool \<Rightarrow> nat \<Rightarrow> 'p \<Rightarrow> nat
    \<Rightarrow> event list \<times> bool \<times> 'p \<times> nat" where
  "DecompressJxlToPackedPixelFile env args compressed accepted_formats accepts_cmyk i ppf
     decoded_bytes =
     (case DecodeImageJXL_pixels env i args accepted_formats accepts_cmyk compressed ppf
             decoded_bytes of
        (ok, ppf', decoded_bytes') \<Rightarrow>
          if \<not> ok then ([CallDecodeToPixels accepted_formats accepts_cmyk False],
                         False, ppf', decoded_bytes')
          else ([CallDecodeToPixels accepted_formats accepts_cmyk True, NotifyElapsed,
                 SetImageSize], True, ppf', decoded_bytes'))"

subsection \<open>main, up to the choice of the path (lines 415-507)\<close>

definition ValidateArgs :: "DecompressArgs \<Rightarrow> event list \<times> bool" where
  "ValidateArgs args =
     (if file_in args = None then ([Stderr ''Missing INPUT filename.''], False)
      else if num_threads args < -1
        then ([Stderr ''Invalid flag value for --num_threads: must be -1, 0 or positive.''],
              False)
      else ([], True))"

definition usage_hint :: "'p env \<Rightarrow> event" where
  "usage_hint env = Stderr (''Use '' @ [CHR 0x27] @ argv0 env @ '' -h'' @ [CHR 0x27]
                             @ '' for more information'')"

text \<open>Lines 415-467: the exits before any decoding, and the compressed input.\<close>

definition read_input :: "'p env \<Rightarrow> DecompressArgs \<Rightarrow> bytes run" where
  "read_input env args =
     (if \<not> Parse_ok env then after [usage_hint env] (exit_with EXIT_FAILURE)
      else if version args
        then after [Stdout (''djxl '' @ version_string env),
                    Stdout ''Copyright (c) the JPEG XL Project'']
               (exit_with EXIT_SUCCESS)
      else bind (emit_if (\<not> quiet args) (Stderr (''JPEG XL decoder '' @ version_string env)))
        (\<lambda>_. if HelpFlagPassed env \<or> file_in args = None
               then after [PrintHelp] (exit_with EXIT_SUCCESS)
             else case ValidateArgs args of
               (msgs, False) \<Rightarrow> after (msgs @ [usage_hint env]) (exit_with EXIT_FAILURE)
             | (msgs, True) \<Rightarrow>
                 after msgs
                 (case ReadFile env (the (file_in args)) of
                    None \<Rightarrow> after [Stderr (''couldn'' @ [CHR 0x27] @ ''t load ''
                                             @ the (file_in args))]
                              (exit_with EXIT_FAILURE)
                  | Some compressed \<Rightarrow>
                      bind (emit_if (\<not> quiet args)
                              (VerbosePrintf 1 (''Read '' @ dec (length compressed)
                                                 @ '' compressed bytes.'')))
                        (\<lambda>_. if file_out args = None \<and> \<not> disable_output args
                               then after [Stderr
                                 ''No output file specified and --disable_output flag not passed.'']
                                 (exit_with EXIT_FAILURE)
                             else bind (emit_if (file_out args \<noteq> None \<and> disable_output args
                                                  \<and> \<not> quiet args)
                                   (Stderr
                                 ''Decoding will be performed, but the result will be discarded.''))
                               (\<lambda>_. ret compressed)))))"

text \<open>
  Lines 469-489: the output file name, the extension and the codec, and the two
  adjustments of the arguments that depend on the codec.
\<close>

record output_target =
  filename_out :: string
  extension :: string
  codec :: Codec

definition detect_output :: "'p env \<Rightarrow> DecompressArgs \<Rightarrow> output_target" where
  "detect_output env args =
     (let extension0 = (if output_format args \<noteq> [] then ''.'' @ output_format args else [])
      in if file_out args \<noteq> None \<and> \<not> disable_output args
         then (case CodecFromPath env (the (file_out args)) extension0 of
                 (c, extension') \<Rightarrow>
                   \<lparr>filename_out = the (file_out args), extension = extension', codec = c\<rparr>)
         else \<lparr>filename_out = [], extension = extension0, codec = kUnknown\<rparr>)"

definition jpeg_quality_passed :: "'p env \<Rightarrow> DecompressArgs \<Rightarrow> bool" where
  "jpeg_quality_passed env args =
     (opt_jpeg_quality_id args \<ge> 0 \<and> option_matched env (opt_jpeg_quality_id args))"

definition adjusted_args :: "'p env \<Rightarrow> DecompressArgs \<Rightarrow> output_target \<Rightarrow> DecompressArgs" where
  "adjusted_args env args tgt =
     (let force_colorspace = ''RGB_D65_SRG_Rel_Lin'';
          args1 = (if codec tgt = kEXR then args\<lparr>color_space := force_colorspace\<rparr> else args)
      in if codec tgt = kPNM \<and> extension tgt \<noteq> ''.pfm''
            \<and> (opt_jpeg_quality_id args1 < 0
                 \<or> \<not> option_matched env (opt_jpeg_quality_id args1))
         then args1\<lparr>bits_per_sample := 0\<rparr> else args1)"

definition exr_warning :: "DecompressArgs \<Rightarrow> output_target \<Rightarrow> unit run" where
  "exr_warning args tgt =
     emit_if (codec tgt = kEXR \<and> color_space args \<noteq> []
              \<and> color_space args \<noteq> ''RGB_D65_SRG_Rel_Lin'')
       (Stderr ''Warning: colorspace ignored for EXR output'')"

definition num_worker_threads_of :: "'p env \<Rightarrow> DecompressArgs \<Rightarrow> nat" where
  "num_worker_threads_of env args =
     (if num_threads args > -1 then nat (num_threads args) else DefaultNumWorkerThreads env)"

text \<open>Lines 502-507: the value of \<^verbatim>\<open>decode_to_pixels\<close> before any decode call.\<close>

definition initial_decode_to_pixels :: "'p env \<Rightarrow> DecompressArgs \<Rightarrow> Codec \<Rightarrow> bool" where
  "initial_decode_to_pixels env args c =
     (let decode_to_pixels = (c \<noteq> kJPG)
      in if opt_jpeg_quality_id args \<ge> 0
            \<and> (pixels_to_jpeg args \<or> option_matched env (opt_jpeg_quality_id args))
         then True else decode_to_pixels)"

subsection \<open>The reconstruct path (lines 510-534)\<close>

definition fallback_warning :: string where
  "fallback_warning =
     ''Warning: could not decode losslessly to JPEG. Retrying with --pixels_to_jpeg...''"

text \<open>
  The loop of lines 512-526. It ends the process, or it ends with the new value of
  \<^verbatim>\<open>decode_to_pixels\<close> and the byte vector: \<open>True\<close> after the \<^verbatim>\<open>break\<close> of line 522,
  \<open>False\<close> when all repetitions are done.
\<close>

function reconstruct_loop ::
  "'p env \<Rightarrow> DecompressArgs \<Rightarrow> bytes \<Rightarrow> nat \<Rightarrow> nat \<Rightarrow> bytes \<Rightarrow> (bool \<times> bytes) run" where
  "reconstruct_loop env args compressed i n jpeg_bytes =
     (if i < n
      then (case DecompressJxlReconstructJPEG env args compressed i jpeg_bytes of
              (es, ok, jpeg_bytes') \<Rightarrow>
                if \<not> ok
                then (if jpeg_bytes' = []
                      then after es
                             (bind (emit_if (\<not> quiet args) (Stderr fallback_warning))
                                (\<lambda>_. ret (True, jpeg_bytes')))
                      else after es (exit_with EXIT_FAILURE))
                else after es (reconstruct_loop env args compressed (i + 1) n jpeg_bytes'))
      else ret (False, jpeg_bytes))"
  by pat_completeness auto
termination
  by (relation "measure (\<lambda>(env, args, compressed, i, n, jpeg_bytes). n - i)") auto

declare reconstruct_loop.simps [simp del]

definition reconstruct_block ::
  "'p env \<Rightarrow> DecompressArgs \<Rightarrow> output_target \<Rightarrow> bytes \<Rightarrow> bool run" where
  "reconstruct_block env args tgt compressed =
     after [EnterReconstruct]
       (bind (reconstruct_loop env args compressed 0 (num_reps args) [])
          (\<lambda>(decode_to_pixels, jpeg_bytes).
             if jpeg_bytes \<noteq> []
             then bind (emit_if (\<not> quiet args) (VerbosePrintf 0 ''Reconstructed to JPEG.''))
                    (\<lambda>_. if filename_out tgt \<noteq> []
                           then (let ok = WriteFile env (filename_out tgt) jpeg_bytes
                                 in after [CallWriteFile ReconstructedJpeg (filename_out tgt)
                                             jpeg_bytes ok]
                                      (if \<not> ok then exit_with EXIT_FAILURE
                                       else ret decode_to_pixels))
                         else ret decode_to_pixels)
             else ret decode_to_pixels))"

subsection \<open>The pixel path (lines 535-635)\<close>

text \<open>Lines 560-565: the float formats pushed when there is no output file.\<close>

definition push_float_formats :: "JxlPixelFormat list \<Rightarrow> JxlPixelFormat list" where
  "push_float_formats accepted_formats =
     foldl (\<lambda>acc nc.
              foldl (\<lambda>acc e. acc @ [\<lparr>num_channels = nc, data_type = JXL_TYPE_FLOAT,
                                        endianness = e, align = 0\<rparr>])
                acc [JXL_BIG_ENDIAN, JXL_LITTLE_ENDIAN])
       accepted_formats [1, 2, 3, 4]"

text \<open>Lines 536-566: the encoder, the accepted formats and the CMYK flag.\<close>

definition negotiate ::
  "'p env \<Rightarrow> DecompressArgs \<Rightarrow> output_target
    \<Rightarrow> (JxlPixelFormat list \<times> 'p Encoder option \<times> bool) run" where
  "negotiate env args tgt =
     bind
       (if filename_out tgt \<noteq> []
        then (case Encoder_FromExtension env (extension tgt) of
                None \<Rightarrow>
                  after [if extension tgt = []
                         then Stderr
                           (''couldn'' @ [CHR 0x27]
                              @ ''t detect output format, consider using --output_format.'')
                         else Stderr (''can'' @ [CHR 0x27] @ ''t decode to the file extension ''
                                      @ [CHR 0x27] @ extension tgt @ [CHR 0x27] @ ''.'')]
                    (exit_with EXIT_FAILURE)
              | Some encoder \<Rightarrow>
                  ret (if alpha_blend args
                       then AddFormatsWithAlphaChannel (AcceptedFormats encoder)
                       else AcceptedFormats encoder,
                       Some encoder, AcceptsCmyk encoder))
        else ret ([], None, False))
       (\<lambda>(accepted_formats, encoder, accepts_cmyk).
          ret (if filename_out tgt = [] then push_float_formats accepted_formats
               else accepted_formats,
               encoder, accepts_cmyk))"

text \<open>The loop of lines 569-576: it ends the process or gives the image and the byte count.\<close>

function pixel_loop ::
  "'p env \<Rightarrow> DecompressArgs \<Rightarrow> bytes \<Rightarrow> JxlPixelFormat list \<Rightarrow> bool \<Rightarrow> nat \<Rightarrow> nat \<Rightarrow> 'p \<Rightarrow> nat
    \<Rightarrow> ('p \<times> nat) run" where
  "pixel_loop env args compressed accepted_formats accepts_cmyk i n ppf decoded_bytes =
     (if i < n
      then (case DecompressJxlToPackedPixelFile env args compressed accepted_formats
                   accepts_cmyk i ppf decoded_bytes of
              (es, ok, ppf', decoded_bytes') \<Rightarrow>
                if \<not> ok
                then after (es @ [Stderr ''DecompressJxlToPackedPixelFile failed''])
                       (exit_with EXIT_FAILURE)
                else after es
                       (pixel_loop env args compressed accepted_formats accepts_cmyk (i + 1) n
                          ppf' decoded_bytes'))
      else ret (ppf, decoded_bytes))"
  by pat_completeness auto
termination
  by (relation "measure (\<lambda>(env, args, compressed, fs, cmyk, i, n, ppf, d). n - i)") auto

declare pixel_loop.simps [simp del]

text \<open>
  Lines 584-594. An exception of \<^verbatim>\<open>ParseBackgroundColor\<close> is caught nowhere in \<^verbatim>\<open>main\<close>.
  When the parser returns \<^verbatim>\<open>false\<close> the array \<^verbatim>\<open>background\<close> is passed on as it is.
\<close>

definition blend_stage :: "'p env \<Rightarrow> DecompressArgs \<Rightarrow> 'p \<Rightarrow> 'p run" where
  "blend_stage env args ppf =
     (if alpha_blend args
      then (case ParseBackgroundColor (background_spec args) of
              Inl e \<Rightarrow> exit_with (Terminate e)
            | Inr (parsed, background) \<Rightarrow>
                bind (emit_if (\<not> parsed)
                        (Stderr (''Invalid background color '' @ background_spec args)))
                  (\<lambda>_. case AlphaBlend env ppf background of
                          (ok, ppf') \<Rightarrow>
                            after [CallAlphaBlend background ok]
                              (if \<not> ok then after [Stderr ''AlphaBlend failed'']
                                                (exit_with EXIT_FAILURE)
                               else ret ppf')))
      else ret ppf)"

text \<open>
  The loops of lines 613-626. The indices are \<^verbatim>\<open>size_t\<close>; they are passed to \<^verbatim>\<open>Filename\<close>
  as \<^verbatim>\<open>int\<close>.
\<close>

function write_frames ::
  "'p env \<Rightarrow> DecompressArgs \<Rightarrow> output_target \<Rightarrow> EncodedImage \<Rightarrow> nat \<Rightarrow> nat \<Rightarrow> nat \<Rightarrow> nat
    \<Rightarrow> unit run" where
  "write_frames env args tgt encoded_image nlayers nframes i j =
     (if j < nframes
      then (if (if i = 0 then j < length (bitstreams encoded_image)
                else i - 1 < length (extra_channel_bitstreams encoded_image)
                     \<and> j < length (extra_channel_bitstreams encoded_image ! (i - 1)))
            then (let bitstream = (if i = 0 then bitstreams encoded_image ! j
                                   else extra_channel_bitstreams encoded_image ! (i - 1) ! j);
                      fn = Filename (filename_out tgt) (extension tgt) (int i) (int j)
                             (int nlayers) (int nframes);
                      ok = WriteFile env fn bitstream
                  in after [CallWriteFile MainOutput fn bitstream ok]
                       (if \<not> ok then exit_with EXIT_FAILURE
                        else bind (emit_if (\<not> quiet args)
                                     (VerbosePrintf 1 (''Wrote output to '' @ fn)))
                               (\<lambda>_. write_frames env args tgt encoded_image nlayers nframes i
                                       (j + 1))))
            else exit_with Undefined)
      else ret ())"
  by pat_completeness auto
termination
  by (relation "measure (\<lambda>(env, args, tgt, img, nlayers, nframes, i, j). nframes - j)") auto

declare write_frames.simps [simp del]

function write_layers ::
  "'p env \<Rightarrow> DecompressArgs \<Rightarrow> output_target \<Rightarrow> EncodedImage \<Rightarrow> nat \<Rightarrow> nat \<Rightarrow> nat
    \<Rightarrow> unit run" where
  "write_layers env args tgt encoded_image nlayers nframes i =
     (if i < nlayers
      then bind (write_frames env args tgt encoded_image nlayers nframes i 0)
             (\<lambda>_. write_layers env args tgt encoded_image nlayers nframes (i + 1))
      else ret ())"
  by pat_completeness auto
termination
  by (relation "measure (\<lambda>(env, args, tgt, img, nlayers, nframes, i). nlayers - i)") auto

declare write_layers.simps [simp del]

text \<open>\<^verbatim>\<open>WriteOptionalOutput\<close> (lines 278-284).\<close>

definition WriteOptionalOutput :: "'p env \<Rightarrow> string \<Rightarrow> bytes \<Rightarrow> event list \<times> bool" where
  "WriteOptionalOutput env filename bs =
     (if filename = [] \<or> bs = [] then ([], True)
      else (let ok = WriteFile env filename bs
            in ([CallWriteFile OptionalOutput filename bs ok], ok)))"

fun write_optional_outputs :: "'p env \<Rightarrow> (string \<times> bytes) list \<Rightarrow> unit run" where
  "write_optional_outputs env [] = ret ()"
| "write_optional_outputs env ((filename, bs) # rest) =
     (case WriteOptionalOutput env filename bs of
        (es, ok) \<Rightarrow> if \<not> ok then after es (exit_with EXIT_FAILURE)
                    else after es (write_optional_outputs env rest))"

text \<open>Lines 583-634: the work done when an encoder was selected.\<close>

definition encode_and_write ::
  "'p env \<Rightarrow> DecompressArgs \<Rightarrow> output_target \<Rightarrow> 'p Encoder \<Rightarrow> 'p \<Rightarrow> unit run" where
  "encode_and_write env args tgt encoder ppf0 =
     bind (blend_stage env args ppf0)
       (\<lambda>ppf.
          let options = [(''q'', dec (jpeg_quality args))]
                        @ (if use_sjpeg args then [(''jpeg_encoder'', ''sjpeg'')] else [])
          in bind (emit_if (\<not> quiet args) (VerbosePrintf 2 ''Encoding decoded image''))
               (\<lambda>_. case Encode encoder options ppf of
                       None \<Rightarrow> after [CallEncode options False, Stderr ''Encode failed'']
                                 (exit_with EXIT_FAILURE)
                     | Some encoded_image \<Rightarrow>
                         after [CallEncode options True]
                           (let nlayers =
                                  (if output_extra_channels args
                                   then 1 + length (extra_channel_bitstreams encoded_image)
                                   else 1);
                                nframes =
                                  (if output_frames args \<or> \<not> coalescing args
                                   then length (bitstreams encoded_image) else 1)
                            in bind (write_layers env args tgt encoded_image nlayers nframes 0)
                                 (\<lambda>_. write_optional_outputs env
                                         [(preview_out args, preview_bitstream encoded_image),
                                          (icc_out args, ppf_icc env ppf),
                                          (orig_icc_out args, ppf_orig_icc env ppf),
                                          (metadata_out args, metadata encoded_image)]))))"

definition pixel_block ::
  "'p env \<Rightarrow> DecompressArgs \<Rightarrow> output_target \<Rightarrow> bytes \<Rightarrow> unit run" where
  "pixel_block env args tgt compressed =
     after [EnterPixelDecode]
       (bind (negotiate env args tgt)
          (\<lambda>(accepted_formats, encoder, accepts_cmyk).
             bind (pixel_loop env args compressed accepted_formats accepts_cmyk 0
                     (num_reps args) (new_ppf env) 0)
               (\<lambda>(ppf, decoded_bytes).
                  bind (emit_if (\<not> quiet args) (VerbosePrintf 0 ''Decoded to pixels.''))
                    (\<lambda>_. bind (emit_if (print_read_bytes args)
                                  (Stderr (''Decoded bytes: '' @ dec decoded_bytes)))
                            (\<lambda>_. case encoder of
                                    None \<Rightarrow> ret ()
                                  | Some enc \<Rightarrow> encode_and_write env args tgt enc ppf)))))"

subsection \<open>main\<close>

text \<open>Lines 469-641, after the input was read.\<close>

definition decode_and_write :: "'p env \<Rightarrow> DecompressArgs \<Rightarrow> bytes \<Rightarrow> unit run" where
  "decode_and_write env args0 compressed =
     (let tgt = detect_output env args0;
          args = adjusted_args env args0 tgt
      in bind (exr_warning args0 tgt)
           (\<lambda>_. bind (if \<not> initial_decode_to_pixels env args (codec tgt)
                       then reconstruct_block env args tgt compressed
                       else ret True)
                   (\<lambda>decode_to_pixels.
                      bind (if decode_to_pixels then pixel_block env args tgt compressed
                            else ret ())
                        (\<lambda>_. bind (emit_if (\<not> quiet args)
                                      (StatsPrint (num_worker_threads_of env args)))
                                (\<lambda>_. exit_with EXIT_SUCCESS)))))"

definition run_main :: "'p env \<Rightarrow> DecompressArgs \<Rightarrow> unit run" where
  "run_main env args = bind (read_input env args) (decode_and_write env args)"

text \<open>\<^verbatim>\<open>main\<close>: the effects of the run and the exit status.\<close>

definition main :: "'p env \<Rightarrow> DecompressArgs \<Rightarrow> event list \<times> exit_status" where
  "main env args =
     (case run_main env args of
        (es, Inl st) \<Rightarrow> (es, st)
      | (es, Inr _) \<Rightarrow> (es, EXIT_SUCCESS))"

subsection \<open>Concrete arguments and collaborators\<close>

text \<open>The default member initialisers of \<^verbatim>\<open>DecompressArgs\<close> (lines 240-270).\<close>

definition default_args :: DecompressArgs where
  "default_args =
     \<lparr>file_in = None, file_out = None, output_format = [], version = False,
      verbose = False, num_reps = 1, disable_output = False, num_threads = -1,
      bits_per_sample = -1, display_nits = 0, color_space = [], downsampling = 0,
      allow_partial_files = False, pixels_to_jpeg = False, jpeg_quality = 95,
      use_sjpeg = False, render_spotcolors = True, coalescing = True,
      output_extra_channels = False, output_frames = False, preview_out = [],
      icc_out = [], orig_icc_out = [], metadata_out = [], background_spec = ''white'',
      alpha_blend = False, print_read_bytes = False, quiet = False,
      opt_bits_per_sample_id = -1, opt_jpeg_quality_id = -1\<rparr>"

text \<open>
  Collaborators for concrete runs: a build with a JPEG encoder (the option
  \<^verbatim>\<open>--jpeg_quality\<close> has id 7 and was not passed), a readable input of three bytes, a codec
  detection that knows \<^verbatim>\<open>.jpg\<close> and \<^verbatim>\<open>.png\<close>, a reconstruction that fails without producing
  a byte (the input was not a recompressed JPEG), a pixel decode that always succeeds, an
  encoder for \<^verbatim>\<open>.png\<close> and \<^verbatim>\<open>.jpg\<close> that returns one frame and no extra channel, an alpha
  blend that succeeds, and a file system that accepts every write. The decoded image is
  modelled by the number of decode calls that built it.
\<close>

definition demo_encoder :: "nat Encoder" where
  "demo_encoder =
     \<lparr>AcceptedFormats = [\<lparr>num_channels = 3, data_type = JXL_TYPE_UINT8,
                           endianness = JXL_NATIVE_ENDIAN, align = 0\<rparr>],
      AcceptsCmyk = False,
      Encode = (\<lambda>options ppf.
                  Some \<lparr>bitstreams = [[1, 2]], extra_channel_bitstreams = [],
                        preview_bitstream = [], metadata = []\<rparr>)\<rparr>"

definition demo_env :: "nat env" where
  "demo_env =
     \<lparr>argv0 = ''djxl'', version_string = ''v0.9.0'', Parse_ok = True,
      HelpFlagPassed = False, option_matched = (\<lambda>id. False),
      ReadFile = (\<lambda>name. Some [255, 10, 0]),
      CodecFromPath = (\<lambda>path ext.
         if ext = ''.jpg'' \<or> (ext = [] \<and> path = ''out.jpg'') then (kJPG, ''.jpg'')
         else if ext = ''.png'' \<or> (ext = [] \<and> path = ''out.png'') then (kPNG, ''.png'')
         else (kUnknown, ext)),
      DefaultNumWorkerThreads = 4,
      DecodeImageJXL_jpeg = (\<lambda>i allow_partial compressed jpeg_bytes. (False, jpeg_bytes)),
      DecodeImageJXL_pixels =
        (\<lambda>i args accepted_formats accepts_cmyk compressed ppf decoded_bytes.
           (True, Suc ppf, length compressed)),
      new_ppf = 0, ppf_icc = (\<lambda>ppf. []), ppf_orig_icc = (\<lambda>ppf. []),
      Encoder_FromExtension =
        (\<lambda>ext. if ext = ''.png'' \<or> ext = ''.jpg'' then Some demo_encoder else None),
      AlphaBlend = (\<lambda>ppf background. (True, ppf)),
      WriteFile = (\<lambda>name bs. True)\<rparr>"

text \<open>
  Three command lines: \<^verbatim>\<open>djxl in.jxl out.jpg\<close>, the same with \<^verbatim>\<open>--quiet\<close>, and
  \<^verbatim>\<open>djxl in.jxl out.png\<close>.
\<close>

definition jpg_args :: DecompressArgs where
  "jpg_args = default_args\<lparr>file_in := Some ''in.jxl'', file_out := Some ''out.jpg'',
                            opt_jpeg_quality_id := 7\<rparr>"

definition quiet_jpg_args :: DecompressArgs where
  "quiet_jpg_args = jpg_args\<lparr>quiet := True\<rparr>"

definition png_args :: DecompressArgs where
  "png_args = default_args\<lparr>file_in := Some ''in.jxl'', file_out := Some ''out.png'',
                            opt_jpeg_quality_id := 7\<rparr>"

subsection \<open>Reading a run\<close>

text \<open>The kinds of events the properties speak about.\<close>

definition is_reconstruct_call :: "event \<Rightarrow> bool" where
  "is_reconstruct_call e = (case e of CallReconstruct ok n \<Rightarrow> True | _ \<Rightarrow> False)"

definition is_pixel_call :: "event \<Rightarrow> bool" where
  "is_pixel_call e = (case e of CallDecodeToPixels fs cmyk ok \<Rightarrow> True | _ \<Rightarrow> False)"

definition is_encode_call :: "event \<Rightarrow> bool" where
  "is_encode_call e = (case e of CallEncode options ok \<Rightarrow> True | _ \<Rightarrow> False)"

definition is_blend_call :: "event \<Rightarrow> bool" where
  "is_blend_call e = (case e of CallAlphaBlend background ok \<Rightarrow> True | _ \<Rightarrow> False)"

definition is_main_write :: "event \<Rightarrow> bool" where
  "is_main_write e = (case e of CallWriteFile k fn bs ok \<Rightarrow> k = MainOutput | _ \<Rightarrow> False)"

definition is_path_entry :: "event \<Rightarrow> bool" where
  "is_path_entry e = (e = EnterReconstruct \<or> e = EnterPixelDecode)"

text \<open>The sizes of the byte vector after the reconstruct calls that failed, in order.\<close>

definition failed_calls :: "event list \<Rightarrow> nat list" where
  "failed_calls es =
     concat (map (\<lambda>e. case e of CallReconstruct ok n \<Rightarrow> if ok then [] else [n] | _ \<Rightarrow> []) es)"

text \<open>The path a run chooses: the first block it enters.\<close>

definition chosen_path :: "event list \<Rightarrow> event option" where
  "chosen_path es = find is_path_entry es"

text \<open>What each part of \<^verbatim>\<open>main\<close> can emit.\<close>

definition prologue_event :: "event \<Rightarrow> bool" where
  "prologue_event e =
     (case e of
        Stderr s \<Rightarrow> s \<noteq> fallback_warning
      | Stdout s \<Rightarrow> True
      | VerbosePrintf l s \<Rightarrow> True
      | PrintHelp \<Rightarrow> True
      | StatsPrint n \<Rightarrow> True
      | _ \<Rightarrow> False)"

definition reconstruct_event :: "event \<Rightarrow> bool" where
  "reconstruct_event e =
     (case e of
        Stderr s \<Rightarrow> True
      | VerbosePrintf l s \<Rightarrow> True
      | CallReconstruct ok n \<Rightarrow> True
      | NotifyElapsed \<Rightarrow> True
      | SetImageSize \<Rightarrow> True
      | SetFileSize n \<Rightarrow> True
      | CallWriteFile k fn bs ok \<Rightarrow> k = ReconstructedJpeg
      | _ \<Rightarrow> False)"

definition pixel_event :: "event \<Rightarrow> bool" where
  "pixel_event e =
     (case e of
        Stderr s \<Rightarrow> s \<noteq> fallback_warning
      | VerbosePrintf l s \<Rightarrow> True
      | CallDecodeToPixels fs cmyk ok \<Rightarrow> True
      | NotifyElapsed \<Rightarrow> True
      | SetImageSize \<Rightarrow> True
      | CallAlphaBlend background ok \<Rightarrow> True
      | CallEncode options ok \<Rightarrow> True
      | CallWriteFile k fn bs ok \<Rightarrow> k \<noteq> ReconstructedJpeg
      | _ \<Rightarrow> False)"

text \<open>
  The specification's format set for a decode without an output encoder: the channel
  counts 1 to 4 crossed with big and little endian, floating-point samples, alignment 0.
\<close>

definition float_format :: "32 word \<Rightarrow> JxlEndianness \<Rightarrow> JxlPixelFormat" where
  "float_format nc e =
     \<lparr>num_channels = nc, data_type = JXL_TYPE_FLOAT, endianness = e, align = 0\<rparr>"

text \<open>
  How the reconstruct path can end, read from its events \<open>es\<close> and its result \<open>r\<close> (the
  exit status, or the new value of \<^verbatim>\<open>decode_to_pixels\<close>); \<open>q\<close> is the flag \<^verbatim>\<open>--quiet\<close>.
  Either no call failed; or exactly one call failed, the last one, with an empty byte
  vector, and the pixel path is next, the warning being printed unless \<open>q\<close>; or exactly one
  call failed, the last one, with bytes in the vector, and the process exits with failure.
\<close>

definition reconstruct_outcome :: "bool \<Rightarrow> event list \<Rightarrow> exit_status + bool \<Rightarrow> bool" where
  "reconstruct_outcome q es r =
     (list_all reconstruct_event es \<and>
      ((r = Inr False \<or> r = Inl EXIT_FAILURE) \<and> failed_calls es = []
         \<and> Stderr fallback_warning \<notin> set es
       \<or> r = Inr True \<and> failed_calls es = [0]
         \<and> (Stderr fallback_warning \<in> set es \<longleftrightarrow> \<not> q)
       \<or> (\<exists>k>0. r = Inl EXIT_FAILURE \<and> failed_calls es = [k]
             \<and> Stderr fallback_warning \<notin> set es)))"

text \<open>Line 636-638: the statistics printed at the end of a run that was not cut short.\<close>

definition stats_events :: "'p env \<Rightarrow> DecompressArgs \<Rightarrow> event list" where
  "stats_events env args =
     (if quiet args then []
      else [StatsPrint (num_worker_threads_of env
              (adjusted_args env args (detect_output env args)))])"

text \<open>
  The events that are neither a pixel decode call, nor a timing sample, nor an encode
  call, nor a write of a main output file.
\<close>

definition uncounted_event :: "event \<Rightarrow> bool" where
  "uncounted_event e =
     (\<not> is_pixel_call e \<and> e \<noteq> NotifyElapsed \<and> \<not> is_encode_call e \<and> \<not> is_main_write e)"

text \<open>
  Collaborators as \<open>demo_env\<close>, with an alpha blend that fails (the image has no alpha
  channel), and the command line \<^verbatim>\<open>djxl in.jxl out.png --num_reps 3 --alpha_blend\<close>.
\<close>

definition no_alpha_env :: "nat env" where
  "no_alpha_env = demo_env\<lparr>AlphaBlend := (\<lambda>ppf background. (False, ppf))\<rparr>"

definition blend_args :: DecompressArgs where
  "blend_args = png_args\<lparr>num_reps := 3, alpha_blend := True\<rparr>"

text \<open>The command line \<^verbatim>\<open>djxl in.jxl out.png --alpha_blend --background '#zzzzzz'\<close>.\<close>

definition bad_background_args :: DecompressArgs where
  "bad_background_args = png_args\<lparr>alpha_blend := True, background_spec := ''#zzzzzz''\<rparr>"

text \<open>A decode call that returned successfully, on either path.\<close>

definition is_completed_call :: "event \<Rightarrow> bool" where
  "is_completed_call e =
     (case e of
        CallReconstruct ok n \<Rightarrow> ok
      | CallDecodeToPixels fs cmyk ok \<Rightarrow> ok
      | _ \<Rightarrow> False)"

section \<open>Properties\<close>

subsection \<open>Decimal numerals and the filename suffixes\<close>

lemma digit_val_digit_char: "d < 10 \<Longrightarrow> digit_val (digit_char d) = d"
proof -
  assume "d < 10"
  then have "d \<in> {0,1,2,3,4,5,6,7,8,9}" by auto
  then show ?thesis by (auto simp: digit_val_def digit_char_def)
qed

lemma undec_snoc: "undec (s @ [c]) = 10 * undec s + digit_val c"
  by (simp add: undec_def)

lemma undec_dec: "undec (dec n) = n"
proof (induction n rule: dec.induct)
  case (1 n)
  show ?case
  proof (cases "n < 10")
    case True
    then show ?thesis by (simp add: dec.simps[of n] undec_def digit_val_digit_char)
  next
    case False
    then have "undec (dec (n div 10)) = n div 10" using 1 by simp
    with False show ?thesis
      by (simp add: dec.simps[of n] undec_snoc digit_val_digit_char)
  qed
qed

lemma undec_zeros: "undec (replicate k CHR ''0'' @ s) = undec s"
proof -
  have "foldl (\<lambda>a c. 10 * a + digit_val c) 0 (replicate k CHR ''0'') = 0"
    by (induction k) (simp_all add: digit_val_def)
  then show ?thesis by (simp add: undec_def)
qed

lemma undec_zero_pad: "undec (zero_pad k n) = n"
  by (simp add: zero_pad_def undec_zeros undec_dec)

lemma length_dec: "length (dec n) = (if n = 0 then 1 else floorlog 10 n)"
proof (induction n rule: dec.induct)
  case (1 n)
  show ?case
  proof (cases "n < 10")
    case True
    then show ?thesis by (simp add: dec.simps[of n] compute_floorlog[of 10 n] compute_floorlog[of 10 0])
  next
    case False
    then have "n div 10 \<noteq> 0" by simp
    with False have "length (dec (n div 10)) = floorlog 10 (n div 10)" using 1 by simp
    with False show ?thesis
      by (simp add: dec.simps[of n] compute_floorlog[of 10 n])
  qed
qed

lemma length_dec_le: "n < m \<Longrightarrow> length (dec n) \<le> floorlog 10 m"
proof -
  assume a: "n < m"
  have "floorlog 10 n \<le> floorlog 10 m" using a by (intro floorlog_mono) simp
  moreover have "1 \<le> floorlog 10 m" using a by (simp add: compute_floorlog[of 10 m])
  ultimately show ?thesis by (simp add: length_dec)
qed

lemma length_zero_pad: "n < m \<Longrightarrow> length (zero_pad (floorlog 10 m) n) = floorlog 10 m"
  using length_dec_le[of n m] by (simp add: zero_pad_def)

lemma printf_0d_nonneg: "0 \<le> v \<Longrightarrow> printf_0d w v = zero_pad w (nat v)"
  by (simp add: printf_0d_def zero_pad_def)

lemma snprintf_frame_suffix:
  "0 \<le> j \<Longrightarrow> j < F \<Longrightarrow>
   snprintf (2 + digits F) (''-'' @ printf_0d (digits F) j) = ''-'' @ zero_pad (digits F) (nat j)"
  using length_zero_pad[of "nat j" "nat F"]
  by (simp add: snprintf_def printf_0d_nonneg digits_def)

lemma snprintf_layer_suffix:
  "0 \<le> i \<Longrightarrow> i < L \<Longrightarrow>
   snprintf (4 + digits L) (''-ec'' @ printf_0d (digits L) i) = ''-ec'' @ zero_pad (digits L) (nat i)"
  using length_zero_pad[of "nat i" "nat L"]
  by (simp add: snprintf_def printf_0d_nonneg digits_def)

lemma digits_log: "1 \<le> n \<Longrightarrow> int (digits n) = 1 + \<lfloor>log 10 (real_of_int n)\<rfloor>"
proof -
  assume n: "1 \<le> n"
  then have "0 \<le> log 10 (real_of_int n)" by simp
  then have "0 \<le> \<lfloor>log 10 (real_of_int n)\<rfloor>" by simp
  moreover have "real (nat n) = real_of_int n" using n by simp
  ultimately show ?thesis using n by (simp add: digits_def floorlog_def)
qed


lemma Filename_in_grid:
  assumes "filename \<noteq> ''-''" "0 \<le> i" "i < L" "0 \<le> j" "j < F"
  shows "Filename filename ext i j L F =
           filename @ frame_suffix_of F j @ layer_suffix_of L i @ extension_suffix_of ext L F i"
proof -
  have f: "snprintf (2 + digits F) (''-'' @ printf_0d (digits F) j) =
           ''-'' @ zero_pad (digits F) (nat j)"
    using assms by (intro snprintf_frame_suffix)
  have l: "snprintf (4 + digits L) (''-ec'' @ printf_0d (digits L) i) =
           ''-ec'' @ zero_pad (digits L) (nat i)"
    using assms by (intro snprintf_layer_suffix)
  show ?thesis
    unfolding Filename_def Let_def f l frame_suffix_of_def layer_suffix_of_def
      extension_suffix_of_def
    using assms by simp
qed

lemma zero_pad_inj: "zero_pad k n = zero_pad k m \<Longrightarrow> n = m"
proof -
  assume "zero_pad k n = zero_pad k m"
  then have "undec (zero_pad k n) = undec (zero_pad k m)" by (rule arg_cong)
  then show "n = m" by (simp only: undec_zero_pad)
qed

lemma length_frame_suffix:
  "0 \<le> j \<Longrightarrow> j < F \<Longrightarrow> length (frame_suffix_of F j) = (if F > 1 then 1 + digits F else 0)"
  using length_zero_pad[of "nat j" "nat F"] by (simp add: frame_suffix_of_def digits_def)

lemma frame_suffix_inj:
  assumes "0 \<le> j" "j < F" "0 \<le> j'" "j' < F" "frame_suffix_of F j = frame_suffix_of F j'"
  shows "j = j'"
proof (cases "F > 1")
  case True
  with assms(5) have "zero_pad (digits F) (nat j) = zero_pad (digits F) (nat j')"
    by (simp add: frame_suffix_of_def)
  then have "nat j = nat j'" by (rule zero_pad_inj)
  with assms show ?thesis by simp
next
  case False
  with assms show ?thesis by simp
qed

lemma length_tail:
  assumes "0 \<le> i" "i < L"
  shows "length (layer_suffix_of L i @ extension_suffix_of ext L F i) =
           (if i > 0 then 3 + digits L + length ext else if F > 1 then length ext else 0)"
proof (cases "i > 0")
  case True
  then have "length (zero_pad (digits L) (nat i)) = digits L"
    using assms length_zero_pad[of "nat i" "nat L"] by (simp add: digits_def)
  moreover have "length (extension_suffix_of ext L F i) = length ext"
    using True assms by (auto simp: extension_suffix_of_def)
  ultimately show ?thesis using True assms by (simp add: layer_suffix_of_def)
next
  case False
  then show ?thesis using assms by (simp add: layer_suffix_of_def extension_suffix_of_def)
qed

lemma tail_inj:
  assumes "0 \<le> i" "i < L" "0 \<le> i'" "i' < L"
    and eq: "layer_suffix_of L i @ extension_suffix_of ext L F i =
             layer_suffix_of L i' @ extension_suffix_of ext L F i'"
  shows "i = i'"
proof -
  have len: "(if i > 0 then 3 + digits L + length ext else if F > 1 then length ext else 0) =
             (if i' > 0 then 3 + digits L + length ext else if F > 1 then length ext else 0)"
    using arg_cong[OF eq, of length] length_tail[OF assms(1,2), of ext F]
      length_tail[OF assms(3,4), of ext F] by simp
  show ?thesis
  proof (cases "i > 0")
    case True
    then have i': "i' > 0" using len by (auto split: if_splits)
    have l: "length (zero_pad (digits L) (nat i)) = length (zero_pad (digits L) (nat i'))"
      using assms length_zero_pad[of "nat i" "nat L"] length_zero_pad[of "nat i'" "nat L"]
      by (simp add: digits_def)
    from eq True i' assms have
      "zero_pad (digits L) (nat i) @ extension_suffix_of ext L F i =
       zero_pad (digits L) (nat i') @ extension_suffix_of ext L F i'"
      by (simp add: layer_suffix_of_def)
    with l have "zero_pad (digits L) (nat i) = zero_pad (digits L) (nat i')" by simp
    then have "nat i = nat i'" by (rule zero_pad_inj)
    with assms show ?thesis by simp
  next
    case False
    then have "\<not> i' > 0" using len by (auto split: if_splits)
    with False assms show ?thesis by simp
  qed
qed


subsection \<open>Filename: the derived path\<close>

text \<open>
  Claim C5, as stated, says that \<^verbatim>\<open>Filename\<close> appends the frame suffix to the base path
  whenever \<open>frameCount > 1\<close>. For the base path \<^verbatim>\<open>"-"\<close> (standard output) line 289 returns
  \<^verbatim>\<open>"-"\<close> at once: with 12 frames, frame 3 of \<^verbatim>\<open>"-"\<close> is \<^verbatim>\<open>"-"\<close>, not \<^verbatim>\<open>"--03.png"\<close>.
\<close>

theorem Filename_stdout_counterexample:
  "Filename ''-'' ''.png'' 0 3 1 12 \<noteq> ''-'' @ ''-'' @ zero_pad (digits 12) 3 @ ''.png''"
  by (simp add: Filename_def)

text \<open>
  Outside the grid the buffer of line 293, of \<open>2 + digits\<close> bytes, cuts the number short:
  frame 100 of 12 frames is written as \<^verbatim>\<open>-10\<close>. The properties below are stated for the
  pairs inside the grid, the only ones \<^verbatim>\<open>main\<close> asks for.
\<close>

lemma Filename_outside_grid:
  "Filename ''base'' ''.png'' 0 100 1 12 = ''base-10.png''"
proof -
  have d: "digits 12 = 2" by (simp add: digits_def compute_floorlog)
  have n: "dec 100 = ''100''" by (simp add: dec.simps digit_char_def)
  show ?thesis by (simp add: Filename_def snprintf_def printf_0d_def d n)
qed

text \<open>
  Claim C5, amended: for every base path other than \<^verbatim>\<open>"-"\<close> and every (layer, frame) pair
  inside the grid, \<^verbatim>\<open>Filename\<close> returns the base path followed by: when \<open>frameCount > 1\<close>,
  \<^verbatim>\<open>"-"\<close> and the frame index zero-padded to \<open>1 + \<lfloor>log10 frameCount\<rfloor>\<close> digits; when
  \<open>layerCount > 1\<close> and \<open>layerIndex > 0\<close>, \<^verbatim>\<open>"-ec"\<close> and the layer index zero-padded to
  \<open>1 + \<lfloor>log10 layerCount\<rfloor>\<close> digits; then \<^verbatim>\<open>".pgm"\<close> when the extension is \<^verbatim>\<open>".ppm"\<close> and
  \<open>layerIndex > 0\<close>, otherwise the extension exactly when one of the two suffixes was
  added. The padded fields have exactly that many characters and read back as the index.
  With one frame and one layer the base path comes back unchanged.
\<close>

theorem Filename_suffixes:
  assumes "filename \<noteq> ''-''"
    and "0 \<le> layer_index" and "layer_index < num_layers"
    and "0 \<le> frame_index" and "frame_index < num_frames"
  shows "Filename filename ext layer_index frame_index num_layers num_frames =
           filename
           @ (if num_frames > 1
              then ''-'' @ zero_pad (digits num_frames) (nat frame_index) else [])
           @ (if num_layers > 1 \<and> layer_index > 0
              then ''-ec'' @ zero_pad (digits num_layers) (nat layer_index) else [])
           @ (if ext = ''.ppm'' \<and> layer_index > 0 then ''.pgm''
              else if num_frames > 1 \<or> (num_layers > 1 \<and> layer_index > 0) then ext
              else [])
         \<and> length (zero_pad (digits num_frames) (nat frame_index)) = digits num_frames
         \<and> undec (zero_pad (digits num_frames) (nat frame_index)) = nat frame_index
         \<and> int (digits num_frames) = 1 + \<lfloor>log 10 (real_of_int num_frames)\<rfloor>
         \<and> length (zero_pad (digits num_layers) (nat layer_index)) = digits num_layers
         \<and> undec (zero_pad (digits num_layers) (nat layer_index)) = nat layer_index
         \<and> int (digits num_layers) = 1 + \<lfloor>log 10 (real_of_int num_layers)\<rfloor>
         \<and> (num_frames = 1 \<and> num_layers = 1 \<longrightarrow>
              Filename filename ext layer_index frame_index num_layers num_frames
                = filename)"
proof -
  have eq: "Filename filename ext layer_index frame_index num_layers num_frames =
      filename @ frame_suffix_of num_frames frame_index
      @ layer_suffix_of num_layers layer_index
      @ extension_suffix_of ext num_layers num_frames layer_index"
    using assms by (rule Filename_in_grid)
  have lf: "length (zero_pad (digits num_frames) (nat frame_index)) = digits num_frames"
    using assms length_zero_pad[of "nat frame_index" "nat num_frames"] by (simp add: digits_def)
  have ll: "length (zero_pad (digits num_layers) (nat layer_index)) = digits num_layers"
    using assms length_zero_pad[of "nat layer_index" "nat num_layers"] by (simp add: digits_def)
  have df: "int (digits num_frames) = 1 + \<lfloor>log 10 (real_of_int num_frames)\<rfloor>"
    using assms by (intro digits_log) simp
  have dl: "int (digits num_layers) = 1 + \<lfloor>log 10 (real_of_int num_layers)\<rfloor>"
    using assms by (intro digits_log) simp
  have one: "num_frames = 1 \<and> num_layers = 1 \<longrightarrow>
      Filename filename ext layer_index frame_index num_layers num_frames = filename"
  proof
    assume "num_frames = 1 \<and> num_layers = 1"
    then have "layer_index = 0" "\<not> num_frames > 1" "\<not> num_layers > 1" using assms by simp_all
    then show "Filename filename ext layer_index frame_index num_layers num_frames
                 = filename"
      using assms(1) by (simp add: Filename_def)
  qed
  show ?thesis
    using eq lf ll df dl one
    by (simp only: frame_suffix_of_def layer_suffix_of_def extension_suffix_of_def
        undec_zero_pad simp_thms)
qed

theorem Filename_suffixes_witness:
  "''base'' \<noteq> ''-'' \<and> (0::int) \<le> 0 \<and> (0::int) < 1 \<and> (0::int) \<le> 3 \<and> (3::int) < 12
   \<and> Filename ''base'' ''.png'' 0 3 1 12 = ''base-03.png''
   \<and> digits 12 = 2"
proof -
  have d: "digits 12 = 2" by (simp add: digits_def compute_floorlog)
  have z: "zero_pad 2 3 = ''03''" by (simp add: zero_pad_def dec.simps digit_char_def)
  show ?thesis
    using Filename_suffixes[of "''base''" 0 1 3 12 "''.png''"] d z by simp
qed

subsection \<open>Filename: distinct paths on the grid\<close>

text \<open>
  Claim C6: for every base path other than \<^verbatim>\<open>"-"\<close> and all \<open>layerCount \<ge> 1\<close>,
  \<open>frameCount \<ge> 1\<close>, two (layer, frame) pairs of the grid
  \<open>[0, layerCount) \<times> [0, frameCount)\<close> with the same derived path are the same pair; for the
  base path \<^verbatim>\<open>"-"\<close> the result is \<^verbatim>\<open>"-"\<close> for every pair.
\<close>

theorem Filename_injective_on_grid:
  "(filename \<noteq> ''-'' \<and> 1 \<le> L \<and> 1 \<le> F \<and>
    0 \<le> i \<and> i < L \<and> 0 \<le> j \<and> j < F \<and> 0 \<le> i' \<and> i' < L \<and> 0 \<le> j' \<and> j' < F \<and>
    Filename filename ext i j L F = Filename filename ext i' j' L F
    \<longrightarrow> i = i' \<and> j = j')
   \<and> Filename ''-'' ext i j L F = ''-''"
proof (intro conjI impI)
  show "Filename ''-'' ext i j L F = ''-''" by (simp add: Filename_def)
next
  assume a: "filename \<noteq> ''-'' \<and> 1 \<le> L \<and> 1 \<le> F \<and>
    0 \<le> i \<and> i < L \<and> 0 \<le> j \<and> j < F \<and> 0 \<le> i' \<and> i' < L \<and> 0 \<le> j' \<and> j' < F \<and>
    Filename filename ext i j L F = Filename filename ext i' j' L F"
  then have "Filename filename ext i j L F = Filename filename ext i' j' L F" by simp
  moreover have "Filename filename ext i j L F =
      filename @ frame_suffix_of F j @ layer_suffix_of L i @ extension_suffix_of ext L F i"
    using a by (intro Filename_in_grid) simp_all
  moreover have "Filename filename ext i' j' L F =
      filename @ frame_suffix_of F j' @ layer_suffix_of L i' @ extension_suffix_of ext L F i'"
    using a by (intro Filename_in_grid) simp_all
  ultimately have eq:
    "frame_suffix_of F j @ (layer_suffix_of L i @ extension_suffix_of ext L F i) =
     frame_suffix_of F j' @ (layer_suffix_of L i' @ extension_suffix_of ext L F i')"
    by simp
  have "length (frame_suffix_of F j) = length (frame_suffix_of F j')"
    using a by (simp add: length_frame_suffix)
  with eq have fs: "frame_suffix_of F j = frame_suffix_of F j'"
    and tl: "layer_suffix_of L i @ extension_suffix_of ext L F i =
             layer_suffix_of L i' @ extension_suffix_of ext L F i'"
    by simp_all
  from fs a show "j = j'" by (intro frame_suffix_inj[of j F j']) simp_all
  from tl a show "i = i'" by (intro tail_inj[of i L i' ext F]) simp_all
qed

theorem Filename_injective_on_grid_witness:
  "Filename ''out.ppm'' ''.ppm'' 0 1 3 2 \<noteq> Filename ''out.ppm'' ''.ppm'' 2 1 3 2
   \<and> Filename ''out.ppm'' ''.ppm'' 2 0 3 2 = ''out.ppm-0-ec2.pgm''
   \<and> Filename ''-'' ''.ppm'' 2 1 3 2 = ''-''"
proof -
  have a: "Filename ''out.ppm'' ''.ppm'' 2 0 3 2 = ''out.ppm-0-ec2.pgm''"
    by (simp add: Filename_def digits_def compute_floorlog snprintf_def printf_0d_def
        dec.simps digit_char_def)
  show ?thesis
    using Filename_injective_on_grid[of "''out.ppm''" 3 2 0 1 2 1 "''.ppm''"] a
    by (auto simp: Filename_def)
qed

subsection \<open>ParseBackgroundColor\<close>

lemmas parse_eval =
  ParseBackgroundColor_def stoi16_def skip_sign_def skip_0x_def isspace_c_def is_hex_def
  hex_val_def hex_number_def color_channels_def hex_prefix_value_def

lemmas f32_eval = times_inv255_def round24_def compute_floorlog Let_def

lemma f32_inv255_nearest: "\<bar>8421505 / 2 ^ 31 - 1 / 255 :: rat\<bar> < 1 / 2 ^ 32"
  by simp

lemma times_inv255_0: "times_inv255 0 = 0"
  by (simp add: f32_eval)

lemma times_inv255_255: "times_inv255 255 = 1"
  by (simp add: f32_eval)

lemma times_inv255_128: "times_inv255 128 = 8421505 / 2 ^ 24"
  by (simp add: f32_eval)

lemma times_inv255_128_close: "\<bar>times_inv255 128 - 128 / 255\<bar> < 1 / 2 ^ 24"
  by (simp add: times_inv255_128)

text \<open>The accepted specs of the help text: \<^verbatim>\<open>black\<close>, \<^verbatim>\<open>white\<close> and a colour such as \<^verbatim>\<open>#ff0080\<close>.\<close>

lemma ParseBackgroundColor_black: "ParseBackgroundColor ''black'' = Inr (True, Some (0, 0, 0))"
  by (simp add: ParseBackgroundColor_def)

lemma ParseBackgroundColor_white: "ParseBackgroundColor ''white'' = Inr (True, Some (1, 1, 1))"
  by (simp add: ParseBackgroundColor_def)

lemma ParseBackgroundColor_ff0080:
  "ParseBackgroundColor ''#ff0080'' = Inr (True, Some (1, 0, times_inv255 128))"
  by (simp add: parse_eval times_inv255_0 times_inv255_255)

lemma ParseBackgroundColor_rejects:
  "length s \<noteq> 7 \<or> s ! 0 \<noteq> CHR ''#'' \<Longrightarrow> s \<noteq> ''black'' \<Longrightarrow> s \<noteq> ''white'' \<Longrightarrow>
   ParseBackgroundColor s = Inr (False, None)"
  by (simp add: ParseBackgroundColor_def)

text \<open>
  Claim C3 says that every spec other than \<^verbatim>\<open>black\<close>, \<^verbatim>\<open>white\<close> and \<^verbatim>\<open>#\<close> followed by six
  hexadecimal digits fails. The code checks the length and the \<^verbatim>\<open>#\<close> only: \<^verbatim>\<open>#12zzzz\<close> is
  not such a spec, and the function returns \<^verbatim>\<open>true\<close> with the colour of the number
  \<^verbatim>\<open>0x12\<close>, that is \<open>(0, 0, 18/255)\<close> up to rounding.
\<close>

theorem ParseBackgroundColor_accepts_12zzzz:
  "ParseBackgroundColor ''#12zzzz'' = Inr (True, Some (0, 0, times_inv255 18))
   \<and> \<not> list_all is_hex ''12zzzz''"
  by (simp add: parse_eval times_inv255_0)

theorem ParseBackgroundColor_accepts_12zzzz_witness:
  "ParseBackgroundColor ''#12zzzz'' \<noteq> Inr (False, None)
   \<and> (\<exists>color. ParseBackgroundColor ''#12zzzz'' = Inr (True, Some color))"
  using ParseBackgroundColor_accepts_12zzzz by simp

text \<open>
  With no hexadecimal digit where \<^verbatim>\<open>std::stoi\<close> looks for one, the exception
  \<^verbatim>\<open>std::invalid_argument\<close> leaves the function.
\<close>

lemma ParseBackgroundColor_throws_zzzzzz:
  "ParseBackgroundColor ''#zzzzzz'' = Inl invalid_argument"
  by (simp add: parse_eval)

subsection \<open>ParseBackgroundColor: what is read after the hash\<close>

lemma hex_val_le: "hex_val c = Some v \<Longrightarrow> v \<le> 15"
  by (auto simp: hex_val_def Let_def split: if_splits)

lemma hex_number_snoc: "hex_number (ds @ [c]) = 16 * hex_number ds + the (hex_val c)"
  by (simp add: hex_number_def)

lemma hex_number_bound: "list_all is_hex ds \<Longrightarrow> hex_number ds < 16 ^ length ds"
proof (induction ds rule: rev_induct)
  case Nil
  then show ?case by (simp add: hex_number_def)
next
  case (snoc c ds)
  then have "hex_number ds < 16 ^ length ds" by simp
  moreover have "the (hex_val c) \<le> 15"
    using snoc.prems by (auto simp: is_hex_def dest: hex_val_le)
  ultimately show ?case by (simp add: hex_number_snoc)
qed

lemma hex_prefix_value_bound: "length s \<le> 6 \<Longrightarrow> hex_prefix_value s < 2 ^ 24"
proof -
  assume l: "length s \<le> 6"
  have a: "list_all is_hex (takeWhile is_hex s)"
    by (simp add: list_all_iff) (meson set_takeWhileD)
  have "length (takeWhile is_hex s) \<le> 6"
    using l length_takeWhile_le[of is_hex s] by linarith
  then have "(16::nat) ^ length (takeWhile is_hex s) \<le> 16 ^ 6"
    by (intro power_increasing) simp_all
  with hex_number_bound[OF a] show ?thesis by (simp add: hex_prefix_value_def)
qed

lemma is_hex_not_space_sign:
  "is_hex c \<Longrightarrow> \<not> isspace_c c \<and> c \<noteq> CHR ''-'' \<and> c \<noteq> CHR ''+''"
  by (auto simp: is_hex_def hex_val_def isspace_c_def Let_def split: if_splits)

lemma stoi16_hex_start:
  assumes "is_hex c" "length r \<le> 5"
  shows "stoi16 (c # r) = Inr (int (hex_prefix_value (skip_0x (c # r))))"
proof -
  have s: "skip_sign (dropWhile isspace_c (c # r)) = (False, c # r)"
    using is_hex_not_space_sign[OF assms(1)] by (simp add: skip_sign_def)
  have h: "\<exists>h t. skip_0x (c # r) = h # t \<and> is_hex h \<and> length t \<le> 5"
    using assms by (auto simp: skip_0x_def split: list.splits)
  then have ne: "takeWhile is_hex (skip_0x (c # r)) \<noteq> []" by auto
  have "length (skip_0x (c # r)) \<le> 6" using h by auto
  then have b: "hex_prefix_value (skip_0x (c # r)) < 2 ^ 24" by (rule hex_prefix_value_bound)
  then have "int (hex_prefix_value (skip_0x (c # r))) \<le> 2 ^ 31 - 1" by simp
  then show ?thesis
    unfolding stoi16_def s using ne by (simp add: hex_prefix_value_def Let_def)
qed

lemma channel_of_word:
  assumes "v < 2 ^ 32"
  shows "unat (drop_bit k (word_of_int (int v) :: 32 word) AND 0xff) = (v div 2 ^ k) mod 256"
proof -
  have m: "(0xff :: 32 word) = mask 8" by (simp add: mask_eq_exp_minus_1)
  have u: "unat (word_of_nat v :: 32 word) = v"
    using assms by (simp add: unat_of_nat)
  have "unat (drop_bit k (word_of_nat v :: 32 word) AND mask 8)
          = take_bit 8 (drop_bit k (unat (word_of_nat v :: 32 word)))"
    by (simp add: unsigned_take_bit_eq unat_drop_bit_eq flip: take_bit_eq_mask)
  also have "\<dots> = (v div 2 ^ k) mod 256"
    by (simp only: u) (simp add: take_bit_eq_mod drop_bit_eq_div)
  finally show ?thesis by (simp add: m)
qed

lemma split_bytes:
  fixes a b c :: nat
  assumes "a < 256" "b < 256" "c < 256"
  shows "((65536 * a + 256 * b + c) div 65536) mod 256 = a"
    and "((65536 * a + 256 * b + c) div 256) mod 256 = b"
    and "(65536 * a + 256 * b + c) mod 256 = c"
proof -
  have e1: "65536 * a + 256 * b + c = (256 * b + c) + 65536 * a" by simp
  have e2: "65536 * a + 256 * b + c = c + 256 * (256 * a + b)" by simp
  have s: "256 * b + c < 65536" using assms by linarith
  have "(65536 * a + 256 * b + c) div 65536 = a"
    unfolding e1 using s by ((simp only: div_mult_self2)?, simp?)
  then show "((65536 * a + 256 * b + c) div 65536) mod 256 = a" using assms by simp
  have "(65536 * a + 256 * b + c) div 256 = 256 * a + b"
    unfolding e2 using assms(3) by ((simp only: div_mult_self2)?, simp?)
  then show "((65536 * a + 256 * b + c) div 256) mod 256 = b" using assms by simp
  show "(65536 * a + 256 * b + c) mod 256 = c"
    unfolding e2 using assms(3) by ((simp only: mod_mult_self2)?, simp?)
qed

lemma color_channels_bytes:
  assumes "a < 256" "b < 256" "c < 256"
  shows "color_channels (word_of_int (int (65536 * a + 256 * b + c)))
           = (times_inv255 a, times_inv255 b, times_inv255 c)"
proof -
  let ?v = "65536 * a + 256 * b + c"
  have v: "?v < 2 ^ 32" using assms by simp
  have "unat (drop_bit 16 (word_of_int (int ?v) :: 32 word) AND 0xff) = a"
    using channel_of_word[OF v, of 16] split_bytes(1)[OF assms] by simp
  moreover have "unat (drop_bit 8 (word_of_int (int ?v) :: 32 word) AND 0xff) = b"
    using channel_of_word[OF v, of 8] split_bytes(2)[OF assms] by simp
  moreover have "unat ((word_of_int (int ?v) :: 32 word) AND 0xff) = c"
    using channel_of_word[OF v, of 0] split_bytes(3)[OF assms] by simp
  ultimately show ?thesis by (simp only: color_channels_def)
qed

lemma is_hex_not_x: "is_hex c \<Longrightarrow> c \<noteq> CHR ''x'' \<and> c \<noteq> CHR ''X''"
  by (auto simp: is_hex_def hex_val_def Let_def)

text \<open>
  A spec \<^verbatim>\<open>#RRGGBB\<close> of six hexadecimal digits gives the three channel values, each
  multiplied by the binary32 constant \<^verbatim>\<open>1.0f / 255\<close>.
\<close>

lemma ParseBackgroundColor_six_hex:
  assumes "list_all is_hex [r1, r2, g1, g2, b1, b2]"
  shows "ParseBackgroundColor [CHR ''#'', r1, r2, g1, g2, b1, b2] =
           Inr (True, Some (times_inv255 (16 * the (hex_val r1) + the (hex_val r2)),
                            times_inv255 (16 * the (hex_val g1) + the (hex_val g2)),
                            times_inv255 (16 * the (hex_val b1) + the (hex_val b2))))"
proof -
  let ?ds = "[r1, r2, g1, g2, b1, b2]"
  let ?a = "16 * the (hex_val r1) + the (hex_val r2)"
  let ?b = "16 * the (hex_val g1) + the (hex_val g2)"
  let ?c = "16 * the (hex_val b1) + the (hex_val b2)"
  have h: "is_hex r1" "is_hex r2" "is_hex g1" "is_hex g2" "is_hex b1" "is_hex b2"
    using assms by simp_all
  have le: "\<And>x. is_hex x \<Longrightarrow> the (hex_val x) \<le> 15"
    by (auto simp: is_hex_def dest: hex_val_le)
  have bounds: "?a < 256" "?b < 256" "?c < 256"
    using le[OF h(1)] le[OF h(2)] le[OF h(3)] le[OF h(4)] le[OF h(5)] le[OF h(6)]
    by simp_all
  have sk: "skip_0x ?ds = ?ds"
    using is_hex_not_x[OF h(2)] by (simp add: skip_0x_def)
  have tw: "takeWhile is_hex ?ds = ?ds" using h by simp
  have n: "hex_prefix_value ?ds = 65536 * ?a + 256 * ?b + ?c"
    unfolding hex_prefix_value_def tw by (simp add: hex_number_def)
  have st: "stoi16 ?ds = Inr (int (65536 * ?a + 256 * ?b + ?c))"
    using stoi16_hex_start[OF h(1), of "[r2, g1, g2, b1, b2]"] by (simp only: sk n) simp
  have p: "ParseBackgroundColor (CHR ''#'' # ?ds)
             = Inr (True, Some (color_channels (word_of_int (int (65536 * ?a + 256 * ?b + ?c)))))"
    by (simp add: ParseBackgroundColor_def st)
  show ?thesis
    unfolding p color_channels_bytes[OF bounds] by (rule refl)
qed

text \<open>
  Claim C10, as stated, derives the colour from the longest run of hexadecimal digits
  after \<^verbatim>\<open>#\<close>. For \<^verbatim>\<open>#0x1234\<close> that run is \<^verbatim>\<open>0\<close>, which is black, but \<^verbatim>\<open>std::stoi\<close> in base 16
  skips the prefix \<^verbatim>\<open>0x\<close> and reads \<^verbatim>\<open>1234\<close>: the colour is \<open>(0, 0x12/255, 0x34/255)\<close>.
\<close>

theorem ParseBackgroundColor_0x_counterexample:
  "ParseBackgroundColor ''#0x1234''
     \<noteq> Inr (True, Some (color_channels (word_of_int (int (hex_prefix_value ''0x1234'')))))
   \<and> ParseBackgroundColor ''#0x1234''
     = Inr (True, Some (0, times_inv255 18, times_inv255 52))"
  by (simp add: parse_eval f32_eval)

text \<open>
  Claim C10, amended: for every 7-character string that starts with \<^verbatim>\<open>#\<close> and whose second
  character is a hexadecimal digit, \<^verbatim>\<open>ParseBackgroundColor\<close> returns \<^verbatim>\<open>true\<close>; the colour is
  that of the longest run of hexadecimal digits after \<^verbatim>\<open>#\<close>, or, when \<^verbatim>\<open>#\<close> is followed by
  \<^verbatim>\<open>0x\<close> or \<^verbatim>\<open>0X\<close> and a hexadecimal digit, of the longest run of hexadecimal digits after
  that prefix; what follows the run is ignored.
\<close>

theorem ParseBackgroundColor_hex_prefix:
  assumes "length s = 7" and "s ! 0 = CHR ''#''" and "is_hex (s ! 1)"
  shows "ParseBackgroundColor s =
           Inr (True, Some (color_channels (word_of_int (int (hex_prefix_value
             (if s ! 1 = CHR ''0'' \<and> (s ! 2 = CHR ''x'' \<or> s ! 2 = CHR ''X'') \<and> is_hex (s ! 3)
              then drop 3 s else drop 1 s))))))"
proof -
  obtain c0 c1 c2 c3 r where s: "s = c0 # c1 # c2 # c3 # r" and r: "length r = 3"
    using assms(1) by (auto simp: length_Suc_conv eval_nat_numeral)
  have c0: "c0 = CHR ''#''" and c1: "is_hex c1" using assms(2,3) s by simp_all
  have k: "s \<noteq> ''black''" "s \<noteq> ''white''" using assms(1) by auto
  have st: "stoi16 (c1 # c2 # c3 # r) = Inr (int (hex_prefix_value (skip_0x (c1 # c2 # c3 # r))))"
    using c1 r by (intro stoi16_hex_start) simp_all
  have sk: "skip_0x (c1 # c2 # c3 # r) =
            (if c1 = CHR ''0'' \<and> (c2 = CHR ''x'' \<or> c2 = CHR ''X'') \<and> is_hex c3
             then c3 # r else c1 # c2 # c3 # r)"
    by (simp add: skip_0x_def)
  show ?thesis
    using k assms(1) by (auto simp add: ParseBackgroundColor_def s c0 st sk)
qed

theorem ParseBackgroundColor_hex_prefix_witness:
  "length ''#12zzzz'' = 7 \<and> ''#12zzzz'' ! 0 = CHR ''#'' \<and> is_hex (''#12zzzz'' ! 1)
   \<and> ParseBackgroundColor ''#12zzzz''
       = Inr (True, Some (color_channels (word_of_int (int (hex_prefix_value ''12zzzz'')))))"
proof -
  have h: "is_hex (''#12zzzz'' ! 1)" by (simp add: is_hex_def hex_val_def)
  show ?thesis
    using ParseBackgroundColor_hex_prefix[of "''#12zzzz''"] h by simp
qed

subsection \<open>AddFormatsWithAlphaChannel\<close>

lemma has_format_iff: "has_format fs format \<longleftrightarrow> format \<in> set fs"
  by (induction fs) auto

lemma alpha_variant_inj: "alpha_variant f = alpha_variant g \<Longrightarrow> f = g"
proof -
  assume e: "alpha_variant f = alpha_variant g"
  have "num_channels (alpha_variant f) = num_channels (alpha_variant g)"
       "data_type (alpha_variant f) = data_type (alpha_variant g)"
       "endianness (alpha_variant f) = endianness (alpha_variant g)"
       "align (alpha_variant f) = align (alpha_variant g)"
    using e by simp_all
  then show "f = g" by (simp add: alpha_variant_def)
qed

lemma nth_notin_take: "distinct xs \<Longrightarrow> i < length xs \<Longrightarrow> xs ! i \<notin> set (take i xs)"
  by (auto simp: in_set_conv_nth distinct_conv_nth)

lemma added_upto_Suc:
  assumes "i < length formats"
  shows "added_upto formats (Suc i) =
           added_upto formats i @
           (if wants_alpha (formats ! i) \<and> alpha_variant (formats ! i) \<notin> set formats
            then [alpha_variant (formats ! i)] else [])"
  using assms by (simp add: added_upto_def take_Suc_conv_app_nth)

lemma variant_notin_added:
  assumes "distinct formats" "i < length formats"
  shows "alpha_variant (formats ! i) \<notin> set (added_upto formats i)"
proof
  assume "alpha_variant (formats ! i) \<in> set (added_upto formats i)"
  then have "alpha_variant (formats ! i) \<in> alpha_variant ` set (take i formats)"
    unfolding added_upto_def by (simp add: image_iff) blast
  then obtain g where g1: "g \<in> set (take i formats)"
    and g2: "alpha_variant (formats ! i) = alpha_variant g"
    by (rule imageE)
  from g2 have "formats ! i = g" by (rule alpha_variant_inj)
  with g1 have "formats ! i \<in> set (take i formats)" by (simp only:)
  with nth_notin_take[OF assms] show False by (rule notE)
qed

lemma alpha_variant_update:
  "f\<lparr>num_channels := num_channels f + 1\<rparr> = alpha_variant f"
  by (cases f) (simp add: alpha_variant_def)

lemma alpha_loop_unfold:
  "alpha_loop i n fs =
     (if i < n
      then alpha_loop (Suc i) n
             (if wants_alpha (fs ! i) then add_format fs (alpha_variant (fs ! i)) else fs)
      else fs)"
proof -
  have "alpha_loop i n fs =
     (if i < n
      then if wants_alpha (fs ! i)
           then alpha_loop (Suc i) n (add_format fs (alpha_variant (fs ! i)))
           else alpha_loop (Suc i) n fs
      else fs)"
    by (subst alpha_loop.simps)
       (simp only: Let_def wants_alpha_def alpha_variant_update Suc_eq_plus1)
  then show ?thesis by (cases "wants_alpha (fs ! i)") simp_all
qed

lemma alpha_loop_inv:
  assumes "distinct formats"
  shows "i \<le> length formats \<Longrightarrow>
         alpha_loop i (length formats) (formats @ added_upto formats i) =
           formats @ added_upto formats (length formats)"
proof (induction "length formats - i" arbitrary: i)
  case 0
  then have "i = length formats" by simp
  then show ?case by (simp add: alpha_loop_unfold[of "length formats"])
next
  case (Suc k)
  then have lt: "i < length formats" by simp
  have nth: "(formats @ added_upto formats i) ! i = formats ! i"
    using lt by (simp add: nth_append)
  have IH: "alpha_loop (Suc i) (length formats) (formats @ added_upto formats (Suc i)) =
            formats @ added_upto formats (length formats)"
    using Suc lt by (intro Suc.hyps(1)) simp_all
  have step: "(if wants_alpha (formats ! i)
               then add_format (formats @ added_upto formats i) (alpha_variant (formats ! i))
               else formats @ added_upto formats i) = formats @ added_upto formats (Suc i)"
    using variant_notin_added[OF assms lt]
    by (simp add: add_format_def has_format_iff added_upto_Suc[OF lt])
  have "alpha_loop i (length formats) (formats @ added_upto formats i) =
        alpha_loop (Suc i) (length formats)
          (if wants_alpha (formats ! i)
           then add_format (formats @ added_upto formats i) (alpha_variant (formats ! i))
           else formats @ added_upto formats i)"
    using lt by (subst alpha_loop_unfold) (simp only: nth if_True)
  then show ?case by (simp only: step IH)
qed

lemma AddFormats_closed_form:
  "distinct formats \<Longrightarrow>
   AddFormatsWithAlphaChannel formats = formats @ added_upto formats (length formats)"
  using alpha_loop_inv[of formats 0] by (simp add: AddFormatsWithAlphaChannel_def added_upto_def)

lemma distinct_added:
  assumes "distinct formats"
  shows "distinct (formats @ added_upto formats (length formats))"
proof -
  have "distinct (map alpha_variant (filter wants_alpha formats))"
    using assms by (simp add: distinct_map inj_on_def alpha_variant_inj)
  then show ?thesis using assms by (auto simp: added_upto_def)
qed

lemma count_list_distinct: "distinct xs \<Longrightarrow> x \<in> set xs \<Longrightarrow> count_list xs x = 1"
  by (induction xs) (auto simp: count_list_0_iff)

text \<open>
  Claim C7: on a list without two structurally identical formats,
  \<^verbatim>\<open>AddFormatsWithAlphaChannel\<close> keeps the list and appends, in order, the variant (one
  channel more, the same sample type, endianness and alignment) of each original format
  with 1 or 3 channels, unless the variant is already among the original formats; every
  such variant occurs exactly once in the result, and the result has no two structurally
  identical formats.
\<close>

theorem AddFormatsWithAlphaChannel_dedup:
  assumes "distinct formats"
  shows "AddFormatsWithAlphaChannel formats =
           formats @ filter (\<lambda>v. v \<notin> set formats)
                       (map alpha_variant (filter wants_alpha formats))
         \<and> distinct (AddFormatsWithAlphaChannel formats)
         \<and> (\<forall>f \<in> set formats. wants_alpha f \<longrightarrow>
               count_list (AddFormatsWithAlphaChannel formats) (alpha_variant f) = 1)"
proof -
  have cf: "AddFormatsWithAlphaChannel formats =
              formats @ added_upto formats (length formats)"
    using assms by (rule AddFormats_closed_form)
  have d: "distinct (AddFormatsWithAlphaChannel formats)"
    using distinct_added[OF assms] by (simp only: cf)
  have m: "alpha_variant f \<in> set (AddFormatsWithAlphaChannel formats)"
    if "f \<in> set formats" "wants_alpha f" for f
    using that by (cases "alpha_variant f \<in> set formats") (simp_all add: cf added_upto_def)
  have c: "\<forall>f \<in> set formats. wants_alpha f \<longrightarrow>
             count_list (AddFormatsWithAlphaChannel formats) (alpha_variant f) = 1"
    using d m by (blast intro: count_list_distinct)
  show ?thesis using cf d c by (simp add: added_upto_def)
qed

theorem AddFormatsWithAlphaChannel_dedup_witness:
  "distinct [\<lparr>num_channels = 3, data_type = JXL_TYPE_UINT8,
               endianness = JXL_NATIVE_ENDIAN, align = 0\<rparr>,
             \<lparr>num_channels = 1, data_type = JXL_TYPE_UINT8,
               endianness = JXL_NATIVE_ENDIAN, align = 0\<rparr>,
             \<lparr>num_channels = 4, data_type = JXL_TYPE_UINT8,
               endianness = JXL_NATIVE_ENDIAN, align = 0\<rparr>]
   \<and> AddFormatsWithAlphaChannel
        [\<lparr>num_channels = 3, data_type = JXL_TYPE_UINT8,
           endianness = JXL_NATIVE_ENDIAN, align = 0\<rparr>,
         \<lparr>num_channels = 1, data_type = JXL_TYPE_UINT8,
           endianness = JXL_NATIVE_ENDIAN, align = 0\<rparr>,
         \<lparr>num_channels = 4, data_type = JXL_TYPE_UINT8,
           endianness = JXL_NATIVE_ENDIAN, align = 0\<rparr>]
      = [\<lparr>num_channels = 3, data_type = JXL_TYPE_UINT8,
           endianness = JXL_NATIVE_ENDIAN, align = 0\<rparr>,
         \<lparr>num_channels = 1, data_type = JXL_TYPE_UINT8,
           endianness = JXL_NATIVE_ENDIAN, align = 0\<rparr>,
         \<lparr>num_channels = 4, data_type = JXL_TYPE_UINT8,
           endianness = JXL_NATIVE_ENDIAN, align = 0\<rparr>,
         \<lparr>num_channels = 2, data_type = JXL_TYPE_UINT8,
           endianness = JXL_NATIVE_ENDIAN, align = 0\<rparr>]"
  using AddFormatsWithAlphaChannel_dedup
    [of "[\<lparr>num_channels = 3, data_type = JXL_TYPE_UINT8,
            endianness = JXL_NATIVE_ENDIAN, align = 0\<rparr>,
          \<lparr>num_channels = 1, data_type = JXL_TYPE_UINT8,
            endianness = JXL_NATIVE_ENDIAN, align = 0\<rparr>,
          \<lparr>num_channels = 4, data_type = JXL_TYPE_UINT8,
            endianness = JXL_NATIVE_ENDIAN, align = 0\<rparr>]"]
  by (simp add: wants_alpha_def alpha_variant_def)

subsection \<open>Runs and their events\<close>

lemma fst_ret [simp]: "fst (ret a) = []"
  and snd_ret [simp]: "snd (ret a) = Inr a"
  by (simp_all add: ret_def)

lemma fst_exit_with [simp]: "fst (exit_with st) = []"
  and snd_exit_with [simp]: "snd (exit_with st) = Inl st"
  by (simp_all add: exit_with_def)

lemma fst_emit_if [simp]: "fst (emit_if b e) = (if b then [e] else [])"
  and snd_emit_if [simp]: "snd (emit_if b e) = Inr ()"
  by (simp_all add: emit_if_def)

lemma fst_after [simp]: "fst (after es m) = es @ fst m"
  and snd_after [simp]: "snd (after es m) = snd m"
  by (simp_all add: after_def)

lemma fst_bind: "fst (bind m f) = fst m @ (case snd m of Inl st \<Rightarrow> [] | Inr a \<Rightarrow> fst (f a))"
  by (cases m) (auto simp: bind_def split: sum.splits prod.splits)

lemma snd_bind: "snd (bind m f) = (case snd m of Inl st \<Rightarrow> Inl st | Inr a \<Rightarrow> snd (f a))"
  by (cases m) (auto simp: bind_def split: sum.splits prod.splits)

lemma list_all_bind:
  assumes "list_all P (fst m)" and "\<And>a. snd m = Inr a \<Longrightarrow> list_all P (fst (f a))"
  shows "list_all P (fst (bind m f))"
  using assms by (simp add: fst_bind split: sum.splits)

lemma failed_calls_append [simp]: "failed_calls (xs @ ys) = failed_calls xs @ failed_calls ys"
  by (simp add: failed_calls_def)

lemma failed_calls_Nil [simp]: "failed_calls [] = []"
  by (simp add: failed_calls_def)

lemma failed_calls_Cons:
  "failed_calls (e # es) =
     (case e of CallReconstruct ok n \<Rightarrow> if ok then [] else [n] | _ \<Rightarrow> []) @ failed_calls es"
  by (simp add: failed_calls_def)

lemma failed_call_iff: "CallReconstruct False n \<in> set es \<longleftrightarrow> n \<in> set (failed_calls es)"
  by (induction es) (auto simp: failed_calls_Cons split: event.splits if_splits)

lemma no_reconstruct_call_failed:
  "list_all (\<lambda>e. \<not> is_reconstruct_call e) es \<Longrightarrow> failed_calls es = []"
  by (induction es) (auto simp: failed_calls_Cons is_reconstruct_call_def split: event.splits)

lemma prologue_event_facts:
  "prologue_event e \<Longrightarrow>
     \<not> is_reconstruct_call e \<and> \<not> is_pixel_call e \<and> \<not> is_encode_call e \<and> \<not> is_main_write e
     \<and> \<not> is_blend_call e \<and> \<not> is_path_entry e \<and> e \<noteq> Stderr fallback_warning
     \<and> e \<noteq> NotifyElapsed \<and> e \<noteq> EnterPixelDecode \<and> e \<noteq> EnterReconstruct"
  by (cases e)
     (simp_all add: prologue_event_def is_reconstruct_call_def is_pixel_call_def
        is_encode_call_def is_main_write_def is_blend_call_def is_path_entry_def)

lemma reconstruct_event_facts:
  "reconstruct_event e \<Longrightarrow>
     \<not> is_pixel_call e \<and> \<not> is_encode_call e \<and> \<not> is_main_write e \<and> \<not> is_blend_call e
     \<and> \<not> is_path_entry e \<and> e \<noteq> EnterPixelDecode \<and> e \<noteq> EnterReconstruct"
  by (cases e)
     (simp_all add: reconstruct_event_def is_pixel_call_def is_encode_call_def
        is_main_write_def is_blend_call_def is_path_entry_def)

lemma pixel_event_facts:
  "pixel_event e \<Longrightarrow>
     \<not> is_reconstruct_call e \<and> \<not> is_path_entry e \<and> e \<noteq> Stderr fallback_warning
     \<and> e \<noteq> EnterPixelDecode \<and> e \<noteq> EnterReconstruct"
  by (cases e)
     (simp_all add: pixel_event_def is_reconstruct_call_def is_path_entry_def)

lemma list_all_mono: "list_all P es \<Longrightarrow> (\<And>e. P e \<Longrightarrow> Q e) \<Longrightarrow> list_all Q es"
  by (induction es) auto

lemma list_all_count0: "list_all (\<lambda>e. e \<noteq> x) es \<Longrightarrow> count_list es x = 0"
  by (induction es) auto

lemma list_all_notin: "list_all (\<lambda>e. e \<noteq> x) es \<Longrightarrow> x \<notin> set es"
  by (induction es) auto

subsection \<open>The events of the pixel path\<close>

lemma DecompressJxlToPackedPixelFile_events:
  "list_all pixel_event
     (fst (DecompressJxlToPackedPixelFile env args c fs cmyk i ppf d))"
  by (simp add: DecompressJxlToPackedPixelFile_def pixel_event_def split: prod.splits)

lemma pixel_loop_events:
  "list_all pixel_event (fst (pixel_loop env args c fs cmyk i n ppf d))"
proof (induction env args c fs cmyk i n ppf d rule: pixel_loop.induct)
  case (1 env args c fs cmyk i n ppf d)
  obtain es ok ppf' d' where
    call: "DecompressJxlToPackedPixelFile env args c fs cmyk i ppf d = (es, ok, ppf', d')"
    by (cases "DecompressJxlToPackedPixelFile env args c fs cmyk i ppf d") auto
  have es: "list_all pixel_event es"
    using DecompressJxlToPackedPixelFile_events[of env args c fs cmyk i ppf d] call by simp
  show ?case
  proof (cases "i < n \<and> ok")
    case True
    then have "list_all pixel_event (fst (pixel_loop env args c fs cmyk (i + 1) n ppf' d'))"
      using 1 call by simp
    with True es call show ?thesis by (subst pixel_loop.simps) simp
  next
    case False
    with es call show ?thesis
      by (subst pixel_loop.simps) (auto simp: pixel_event_def fallback_warning_def)
  qed
qed

lemma pixel_event_simps [simp]:
  "pixel_event (Stderr s) \<longleftrightarrow> s \<noteq> fallback_warning"
  "pixel_event (VerbosePrintf l s)"
  "pixel_event (CallDecodeToPixels fs cmyk ok1)"
  "pixel_event NotifyElapsed"
  "pixel_event SetImageSize"
  "pixel_event (CallAlphaBlend background ok2)"
  "pixel_event (CallEncode options ok3)"
  "pixel_event (CallWriteFile k fn bs ok4) \<longleftrightarrow> k \<noteq> ReconstructedJpeg"
  by (simp_all add: pixel_event_def)

lemma negotiate_events: "list_all pixel_event (fst (negotiate env args tgt))"
  by (cases "Encoder_FromExtension env (extension tgt)")
     (simp_all add: negotiate_def fst_bind snd_bind fallback_warning_def)

lemma blend_stage_events: "list_all pixel_event (fst (blend_stage env args ppf))"
proof (cases "alpha_blend args")
  case False
  then show ?thesis by (simp add: blend_stage_def)
next
  case True
  show ?thesis
  proof (cases "ParseBackgroundColor (background_spec args)")
    case (Inl e)
    with True show ?thesis by (simp add: blend_stage_def)
  next
    case (Inr r)
    obtain parsed background where r: "r = (parsed, background)" by (cases r)
    obtain ok ppf' where b: "AlphaBlend env ppf background = (ok, ppf')"
      by (cases "AlphaBlend env ppf background")
    show ?thesis
      using True Inr r b
      by (simp add: blend_stage_def fst_bind fallback_warning_def)
  qed
qed

lemma write_frames_events:
  "list_all pixel_event (fst (write_frames env args tgt img nlayers nframes i j))"
proof (induction "nframes - j" arbitrary: j)
  case 0
  then show ?case by (subst write_frames.simps) simp
next
  case (Suc k)
  have IH: "list_all pixel_event
              (fst (write_frames env args tgt img nlayers nframes i (j + 1)))"
    using Suc by (intro Suc.hyps(1)) simp
  show ?case
    using IH by (subst write_frames.simps) (auto simp add: Let_def fst_bind)
qed

lemma write_layers_events:
  "list_all pixel_event (fst (write_layers env args tgt img nlayers nframes i))"
proof (induction "nlayers - i" arbitrary: i)
  case 0
  then show ?case by (subst write_layers.simps) simp
next
  case (Suc k)
  have IH: "list_all pixel_event
              (fst (write_layers env args tgt img nlayers nframes (i + 1)))"
    using Suc by (intro Suc.hyps(1)) simp
  show ?case
    using IH write_frames_events[of env args tgt img nlayers nframes i 0]
    by (subst write_layers.simps) (simp add: fst_bind split: sum.splits)
qed

lemma write_optional_outputs_events:
  "list_all pixel_event (fst (write_optional_outputs env outs))"
proof (induction outs)
  case Nil
  then show ?case by simp
next
  case (Cons o1 outs)
  obtain filename bs where o1: "o1 = (filename, bs)" by (cases o1)
  show ?case using Cons by (simp add: o1 WriteOptionalOutput_def Let_def)
qed

lemma write_all_events:
  "list_all pixel_event
     (fst (bind (write_layers env args tgt img nlayers nframes i)
             (\<lambda>_. write_optional_outputs env outs)))"
  by (rule list_all_bind) (simp_all add: write_layers_events write_optional_outputs_events)

lemma encode_and_write_events:
  "list_all pixel_event (fst (encode_and_write env args tgt enc ppf))"
  unfolding encode_and_write_def Let_def
proof (rule list_all_bind, rule blend_stage_events, goal_cases)
  case (1 ppf')
  show ?case
  proof (cases "Encode enc ([(''q'', dec (jpeg_quality args))]
                 @ (if use_sjpeg args then [(''jpeg_encoder'', ''sjpeg'')] else [])) ppf'")
    case None
    then show ?thesis by (simp add: fst_bind fallback_warning_def)
  next
    case (Some img)
    then show ?thesis
      by (simp add: fst_bind[of "emit_if b e" for b e] write_all_events
          del: write_optional_outputs.simps)
  qed
qed

lemma pixel_block_events:
  "\<exists>es. fst (pixel_block env args tgt c) = EnterPixelDecode # es \<and> list_all pixel_event es"
proof -
  have "list_all pixel_event
          (fst (bind (negotiate env args tgt)
             (\<lambda>(accepted_formats, encoder, accepts_cmyk).
                bind (pixel_loop env args c accepted_formats accepts_cmyk 0
                        (num_reps args) (new_ppf env) 0)
                  (\<lambda>(ppf, decoded_bytes).
                     bind (emit_if (\<not> quiet args) (VerbosePrintf 0 ''Decoded to pixels.''))
                       (\<lambda>_. bind (emit_if (print_read_bytes args)
                                     (Stderr (''Decoded bytes: '' @ dec decoded_bytes)))
                               (\<lambda>_. case encoder of
                                       None \<Rightarrow> ret ()
                                     | Some enc \<Rightarrow> encode_and_write env args tgt enc ppf))))))"
  proof (rule list_all_bind, rule negotiate_events, goal_cases)
    case (1 a)
    obtain fs encoder cmyk where a: "a = (fs, encoder, cmyk)" by (cases a)
    show ?case
      unfolding a prod.case
    proof (rule list_all_bind, rule pixel_loop_events, goal_cases)
      case (1 b)
      obtain ppf d where b: "b = (ppf, d)" by (cases b)
      show ?case
        by (cases encoder)
           (simp_all add: b fst_bind fallback_warning_def encode_and_write_events)
    qed
  qed
  then show ?thesis by (simp add: pixel_block_def)
qed

subsection \<open>The events of the reconstruct path\<close>

lemma reconstruct_event_simps [simp]:
  "reconstruct_event (Stderr s)"
  "reconstruct_event (VerbosePrintf l s)"
  "reconstruct_event (CallReconstruct ok1 n)"
  "reconstruct_event NotifyElapsed"
  "reconstruct_event SetImageSize"
  "reconstruct_event (SetFileSize m)"
  "reconstruct_event (CallWriteFile k fn bs ok2) \<longleftrightarrow> k = ReconstructedJpeg"
  by (simp_all add: reconstruct_event_def)

lemma reconstruct_loop_outcome:
  "reconstruct_outcome (quiet args) (fst (reconstruct_loop env args c i n b))
     (map_sum id fst (snd (reconstruct_loop env args c i n b)))
   \<and> (\<forall>b'. snd (reconstruct_loop env args c i n b) = Inr (True, b') \<longrightarrow> b' = [])"
proof (induction "n - i" arbitrary: i b)
  case 0
  then show ?case
    by (subst (1 2 3) reconstruct_loop.simps) (simp add: reconstruct_outcome_def)
next
  case (Suc k)
  then have lt: "i < n" by simp
  obtain ok b' where call: "DecodeImageJXL_jpeg env i (allow_partial_files args) c b = (ok, b')"
    by (cases "DecodeImageJXL_jpeg env i (allow_partial_files args) c b")
  show ?case
  proof (cases ok)
    case False
    have L: "reconstruct_loop env args c i n b =
               (if b' = []
                then after [CallReconstruct False (length b')]
                       (bind (emit_if (\<not> quiet args) (Stderr fallback_warning))
                          (\<lambda>_. ret (True, b')))
                else after [CallReconstruct False (length b')] (exit_with EXIT_FAILURE))"
      using lt call False
      by (subst reconstruct_loop.simps) (simp add: DecompressJxlReconstructJPEG_def)
    show ?thesis
      unfolding L
      by (simp add: reconstruct_outcome_def fst_bind snd_bind failed_calls_Cons)
  next
    case True
    let ?es = "[CallReconstruct True (length b'), NotifyElapsed, SetImageSize,
                SetFileSize (length b')]"
    have L: "reconstruct_loop env args c i n b =
               after ?es (reconstruct_loop env args c (i + 1) n b')"
      using lt call True
      by (subst reconstruct_loop.simps) (simp add: DecompressJxlReconstructJPEG_def)
    have IH: "reconstruct_outcome (quiet args) (fst (reconstruct_loop env args c (i + 1) n b'))
                (map_sum id fst (snd (reconstruct_loop env args c (i + 1) n b')))
              \<and> (\<forall>b''. snd (reconstruct_loop env args c (i + 1) n b') = Inr (True, b'')
                    \<longrightarrow> b'' = [])"
      using Suc lt by (intro Suc.hyps(1)) simp
    show ?thesis
      unfolding L using IH
      by (simp add: reconstruct_outcome_def failed_calls_Cons)
  qed
qed

lemma reconstruct_block_outcome:
  "\<exists>es. fst (reconstruct_block env args tgt c) = EnterReconstruct # es
        \<and> reconstruct_outcome (quiet args) es (snd (reconstruct_block env args tgt c))"
proof -
  let ?L = "reconstruct_loop env args c 0 (num_reps args) []"
  have O: "reconstruct_outcome (quiet args) (fst ?L) (map_sum id fst (snd ?L))"
    and E: "\<forall>b'. snd ?L = Inr (True, b') \<longrightarrow> b' = []"
    using reconstruct_loop_outcome[of args env c 0 "num_reps args" "[]"] by simp_all
  show ?thesis
  proof (cases "snd ?L")
    case (Inl st)
    with O show ?thesis by (simp add: reconstruct_block_def fst_bind snd_bind)
  next
    case (Inr r)
    obtain d b where r: "r = (d, b)" by (cases r)
    show ?thesis
    proof (cases "b = []")
      case True
      with O Inr r show ?thesis by (simp add: reconstruct_block_def fst_bind snd_bind)
    next
      case False
      then have d: "d = False" using E Inr r by auto
      have F: "failed_calls (fst ?L) = []" "Stderr fallback_warning \<notin> set (fst ?L)"
        "list_all reconstruct_event (fst ?L)"
        using O Inr r d by (auto simp: reconstruct_outcome_def)
      show ?thesis
        using False Inr r d F
        by (simp add: reconstruct_block_def fst_bind snd_bind Let_def reconstruct_outcome_def
            failed_calls_Cons)
    qed
  qed
qed

subsection \<open>The shape of a run of main\<close>

lemma prologue_event_simps [simp]:
  "prologue_event (Stderr s) \<longleftrightarrow> s \<noteq> fallback_warning"
  "prologue_event (Stdout s)"
  "prologue_event (VerbosePrintf l s)"
  "prologue_event PrintHelp"
  "prologue_event (StatsPrint n)"
  by (simp_all add: prologue_event_def)

lemma ValidateArgs_events: "list_all prologue_event (fst (ValidateArgs args))"
  by (simp add: ValidateArgs_def fallback_warning_def)

lemma read_input_events: "list_all prologue_event (fst (read_input env args))"
proof -
  obtain msgs ok where v: "ValidateArgs args = (msgs, ok)" by (cases "ValidateArgs args")
  have m: "list_all prologue_event msgs" using ValidateArgs_events[of args] v by simp
  show ?thesis
    using m
    by (cases "ReadFile env (the (file_in args))"; cases ok)
       (simp_all add: read_input_def v fst_bind snd_bind usage_hint_def fallback_warning_def)
qed

lemma exr_warning_events: "list_all prologue_event (fst (exr_warning args tgt))"
  and exr_warning_result: "snd (exr_warning args tgt) = Inr ()"
  by (simp_all add: exr_warning_def fallback_warning_def)

lemma adjusted_args_fields [simp]:
  "quiet (adjusted_args env args tgt) = quiet args"
  "num_reps (adjusted_args env args tgt) = num_reps args"
  "alpha_blend (adjusted_args env args tgt) = alpha_blend args"
  "background_spec (adjusted_args env args tgt) = background_spec args"
  "pixels_to_jpeg (adjusted_args env args tgt) = pixels_to_jpeg args"
  "opt_jpeg_quality_id (adjusted_args env args tgt) = opt_jpeg_quality_id args"
  "output_extra_channels (adjusted_args env args tgt) = output_extra_channels args"
  "output_frames (adjusted_args env args tgt) = output_frames args"
  "coalescing (adjusted_args env args tgt) = coalescing args"
  "print_read_bytes (adjusted_args env args tgt) = print_read_bytes args"
  by (simp_all add: adjusted_args_def Let_def)

lemma initial_decode_to_pixels_adjusted [simp]:
  "initial_decode_to_pixels env (adjusted_args env args tgt) c
     = initial_decode_to_pixels env args c"
  by (simp add: initial_decode_to_pixels_def)

lemma stats_events_prologue: "list_all prologue_event (stats_events env args)"
  by (simp add: stats_events_def)

lemma main_early:
  "snd (read_input env args) = Inl st \<Longrightarrow> main env args = (fst (read_input env args), st)"
  by (cases "read_input env args") (simp add: main_def run_main_def bind_def)

lemma main_direct:
  assumes "snd (read_input env args) = Inr c"
    and "initial_decode_to_pixels env args (codec (detect_output env args))"
  shows "main env args =
           (fst (read_input env args) @ fst (exr_warning args (detect_output env args))
            @ fst (pixel_block env (adjusted_args env args (detect_output env args))
                     (detect_output env args) c)
            @ (case snd (pixel_block env (adjusted_args env args (detect_output env args))
                          (detect_output env args) c) of
                 Inl st \<Rightarrow> [] | Inr u \<Rightarrow> stats_events env args),
            case snd (pixel_block env (adjusted_args env args (detect_output env args))
                        (detect_output env args) c) of
              Inl st \<Rightarrow> st | Inr u \<Rightarrow> EXIT_SUCCESS)"
proof -
  have "fst (run_main env args) = fst (read_input env args)
          @ fst (exr_warning args (detect_output env args))
          @ fst (pixel_block env (adjusted_args env args (detect_output env args))
                   (detect_output env args) c)
          @ (case snd (pixel_block env (adjusted_args env args (detect_output env args))
                        (detect_output env args) c) of
               Inl st \<Rightarrow> [] | Inr u \<Rightarrow> stats_events env args)"
    using assms
    by (simp add: run_main_def decode_and_write_def Let_def fst_bind snd_bind
        exr_warning_result stats_events_def split: sum.splits)
  moreover have "snd (run_main env args) =
      (case snd (pixel_block env (adjusted_args env args (detect_output env args))
                   (detect_output env args) c) of
         Inl st \<Rightarrow> Inl st | Inr u \<Rightarrow> Inl EXIT_SUCCESS)"
    using assms
    by (simp add: run_main_def decode_and_write_def Let_def fst_bind snd_bind
        exr_warning_result split: sum.splits)
  ultimately show ?thesis
    by (cases "run_main env args") (auto simp: main_def split: sum.splits)
qed

lemma main_reconstruct:
  assumes "snd (read_input env args) = Inr c"
    and "\<not> initial_decode_to_pixels env args (codec (detect_output env args))"
  shows "main env args =
           (fst (read_input env args) @ fst (exr_warning args (detect_output env args))
            @ fst (reconstruct_block env (adjusted_args env args (detect_output env args))
                     (detect_output env args) c)
            @ (case snd (reconstruct_block env (adjusted_args env args (detect_output env args))
                          (detect_output env args) c) of
                 Inl st \<Rightarrow> []
               | Inr decode_to_pixels \<Rightarrow>
                   if decode_to_pixels
                   then fst (pixel_block env (adjusted_args env args (detect_output env args))
                               (detect_output env args) c)
                        @ (case snd (pixel_block env
                                       (adjusted_args env args (detect_output env args))
                                       (detect_output env args) c) of
                             Inl st \<Rightarrow> [] | Inr u \<Rightarrow> stats_events env args)
                   else stats_events env args),
            case snd (reconstruct_block env (adjusted_args env args (detect_output env args))
                        (detect_output env args) c) of
              Inl st \<Rightarrow> st
            | Inr decode_to_pixels \<Rightarrow>
                if decode_to_pixels
                then (case snd (pixel_block env
                                  (adjusted_args env args (detect_output env args))
                                  (detect_output env args) c) of
                        Inl st \<Rightarrow> st | Inr u \<Rightarrow> EXIT_SUCCESS)
                else EXIT_SUCCESS)"
proof -
  have "fst (run_main env args) = fst (read_input env args)
          @ fst (exr_warning args (detect_output env args))
          @ fst (reconstruct_block env (adjusted_args env args (detect_output env args))
                   (detect_output env args) c)
          @ (case snd (reconstruct_block env (adjusted_args env args (detect_output env args))
                        (detect_output env args) c) of
               Inl st \<Rightarrow> []
             | Inr decode_to_pixels \<Rightarrow>
                 if decode_to_pixels
                 then fst (pixel_block env (adjusted_args env args (detect_output env args))
                             (detect_output env args) c)
                      @ (case snd (pixel_block env
                                     (adjusted_args env args (detect_output env args))
                                     (detect_output env args) c) of
                           Inl st \<Rightarrow> [] | Inr u \<Rightarrow> stats_events env args)
                 else stats_events env args)"
    using assms
    by (simp add: run_main_def decode_and_write_def Let_def fst_bind snd_bind
        exr_warning_result stats_events_def split: sum.splits)
  moreover have "snd (run_main env args) =
      (case snd (reconstruct_block env (adjusted_args env args (detect_output env args))
                   (detect_output env args) c) of
         Inl st \<Rightarrow> Inl st
       | Inr decode_to_pixels \<Rightarrow>
           if decode_to_pixels
           then (case snd (pixel_block env (adjusted_args env args (detect_output env args))
                             (detect_output env args) c) of
                   Inl st \<Rightarrow> Inl st | Inr u \<Rightarrow> Inl EXIT_SUCCESS)
           else Inl EXIT_SUCCESS)"
    using assms
    by (simp add: run_main_def decode_and_write_def Let_def fst_bind snd_bind
        exr_warning_result split: sum.splits)
  ultimately show ?thesis
    by (cases "run_main env args") (auto simp: main_def split: sum.splits)
qed

lemma prologue_list:
  assumes "list_all prologue_event es"
  shows "failed_calls es = []" and "Stderr fallback_warning \<notin> set es"
    and "EnterPixelDecode \<notin> set es" and "EnterReconstruct \<notin> set es"
    and "list_all (\<lambda>e. \<not> is_reconstruct_call e) es"
    and "list_all (\<lambda>e. \<not> is_pixel_call e) es"
    and "list_all (\<lambda>e. \<not> is_path_entry e) es"
proof -
  show r: "list_all (\<lambda>e. \<not> is_reconstruct_call e) es"
    using assms by (rule list_all_mono) (simp add: prologue_event_facts)
  show "failed_calls es = []" using r by (rule no_reconstruct_call_failed)
  show "list_all (\<lambda>e. \<not> is_pixel_call e) es"
    using assms by (rule list_all_mono) (simp add: prologue_event_facts)
  show "list_all (\<lambda>e. \<not> is_path_entry e) es"
    using assms by (rule list_all_mono) (simp add: prologue_event_facts)
  have "list_all (\<lambda>e. e \<noteq> Stderr fallback_warning) es"
    using assms by (rule list_all_mono) (simp add: prologue_event_facts)
  then show "Stderr fallback_warning \<notin> set es" by (rule list_all_notin)
  have "list_all (\<lambda>e. e \<noteq> EnterPixelDecode) es"
    using assms by (rule list_all_mono) (simp add: prologue_event_facts)
  then show "EnterPixelDecode \<notin> set es" by (rule list_all_notin)
  have "list_all (\<lambda>e. e \<noteq> EnterReconstruct) es"
    using assms by (rule list_all_mono) (simp add: prologue_event_facts)
  then show "EnterReconstruct \<notin> set es" by (rule list_all_notin)
qed

lemma pixel_list:
  assumes "list_all pixel_event es"
  shows "failed_calls es = []" and "Stderr fallback_warning \<notin> set es"
    and "EnterPixelDecode \<notin> set es" and "EnterReconstruct \<notin> set es"
    and "list_all (\<lambda>e. \<not> is_reconstruct_call e) es"
proof -
  show r: "list_all (\<lambda>e. \<not> is_reconstruct_call e) es"
    using assms by (rule list_all_mono) (simp add: pixel_event_facts)
  show "failed_calls es = []" using r by (rule no_reconstruct_call_failed)
  have "list_all (\<lambda>e. e \<noteq> Stderr fallback_warning) es"
    using assms by (rule list_all_mono) (simp add: pixel_event_facts)
  then show "Stderr fallback_warning \<notin> set es" by (rule list_all_notin)
  have "list_all (\<lambda>e. e \<noteq> EnterPixelDecode) es"
    using assms by (rule list_all_mono) (simp add: pixel_event_facts)
  then show "EnterPixelDecode \<notin> set es" by (rule list_all_notin)
  have "list_all (\<lambda>e. e \<noteq> EnterReconstruct) es"
    using assms by (rule list_all_mono) (simp add: pixel_event_facts)
  then show "EnterReconstruct \<notin> set es" by (rule list_all_notin)
qed

lemma reconstruct_list:
  assumes "list_all reconstruct_event es"
  shows "EnterPixelDecode \<notin> set es" and "EnterReconstruct \<notin> set es"
    and "list_all (\<lambda>e. \<not> is_pixel_call e) es"
proof -
  show "list_all (\<lambda>e. \<not> is_pixel_call e) es"
    using assms by (rule list_all_mono) (simp add: reconstruct_event_facts)
  have "list_all (\<lambda>e. e \<noteq> EnterPixelDecode) es"
    using assms by (rule list_all_mono) (simp add: reconstruct_event_facts)
  then show "EnterPixelDecode \<notin> set es" by (rule list_all_notin)
  have "list_all (\<lambda>e. e \<noteq> EnterReconstruct) es"
    using assms by (rule list_all_mono) (simp add: reconstruct_event_facts)
  then show "EnterReconstruct \<notin> set es" by (rule list_all_notin)
qed

text \<open>
  Every run of \<^verbatim>\<open>main\<close> has one of five shapes: it ends before the choice of the path; it
  takes the pixel path directly; it takes the reconstruct path and no call fails; it takes
  the reconstruct path and a call fails with bytes in the vector; or a call fails with an
  empty vector and the pixel path follows.
\<close>

lemma main_shape:
  obtains
    (early) A st where "main env args = (A, st)" and "list_all prologue_event A"
      and "snd (read_input env args) = Inl st"
  | (direct) c A P S where "snd (read_input env args) = Inr c"
      and "initial_decode_to_pixels env args (codec (detect_output env args))"
      and "fst (main env args) = A @ EnterPixelDecode # P @ S"
      and "list_all prologue_event A" and "list_all pixel_event P"
      and "list_all prologue_event S"
  | (completed) c A R S where "snd (read_input env args) = Inr c"
      and "\<not> initial_decode_to_pixels env args (codec (detect_output env args))"
      and "fst (main env args) = A @ EnterReconstruct # R @ S"
      and "list_all prologue_event A" and "list_all reconstruct_event R"
      and "list_all prologue_event S"
      and "failed_calls R = []" and "Stderr fallback_warning \<notin> set R"
  | (fatal) c A R k where "snd (read_input env args) = Inr c"
      and "\<not> initial_decode_to_pixels env args (codec (detect_output env args))"
      and "main env args = (A @ EnterReconstruct # R, EXIT_FAILURE)"
      and "list_all prologue_event A" and "list_all reconstruct_event R"
      and "0 < k" and "failed_calls R = [k]" and "Stderr fallback_warning \<notin> set R"
  | (fallback) c A R P S where "snd (read_input env args) = Inr c"
      and "\<not> initial_decode_to_pixels env args (codec (detect_output env args))"
      and "fst (main env args) = A @ EnterReconstruct # R @ EnterPixelDecode # P @ S"
      and "list_all prologue_event A" and "list_all reconstruct_event R"
      and "list_all pixel_event P" and "list_all prologue_event S"
      and "failed_calls R = [0]"
      and "Stderr fallback_warning \<in> set R \<longleftrightarrow> \<not> quiet args"
proof (cases "snd (read_input env args)")
  case (Inl st)
  then show ?thesis
    using main_early[of env args st] read_input_events[of env args] by (intro early)
next
  case (Inr c)
  let ?tgt = "detect_output env args"
  let ?args = "adjusted_args env args ?tgt"
  let ?A = "fst (read_input env args) @ fst (exr_warning args ?tgt)"
  have A: "list_all prologue_event ?A"
    by (simp add: read_input_events exr_warning_events)
  obtain P where P: "fst (pixel_block env ?args ?tgt c) = EnterPixelDecode # P"
    and Pe: "list_all pixel_event P"
    using pixel_block_events[of env ?args ?tgt c] by blast
  let ?S = "case snd (pixel_block env ?args ?tgt c) of
              Inl st \<Rightarrow> [] | Inr u \<Rightarrow> stats_events env args"
  have S: "list_all prologue_event ?S"
    by (simp add: stats_events_prologue split: sum.splits)
  show ?thesis
  proof (cases "initial_decode_to_pixels env args (codec ?tgt)")
    case True
    have "fst (main env args) = ?A @ EnterPixelDecode # P @ ?S"
      using main_direct[OF Inr True] P by simp
    with Inr True A Pe S show ?thesis by (intro direct)
  next
    case False
    obtain R where R: "fst (reconstruct_block env ?args ?tgt c) = EnterReconstruct # R"
      and O: "reconstruct_outcome (quiet args) R (snd (reconstruct_block env ?args ?tgt c))"
      using reconstruct_block_outcome[of env ?args ?tgt c] by auto
    have Re: "list_all reconstruct_event R" using O by (simp add: reconstruct_outcome_def)
    note M = main_reconstruct[OF Inr False]
    consider
      (a) "snd (reconstruct_block env ?args ?tgt c) = Inr False" "failed_calls R = []"
          "Stderr fallback_warning \<notin> set R"
    | (b) "snd (reconstruct_block env ?args ?tgt c) = Inl EXIT_FAILURE" "failed_calls R = []"
          "Stderr fallback_warning \<notin> set R"
    | (c) "snd (reconstruct_block env ?args ?tgt c) = Inr True" "failed_calls R = [0]"
          "Stderr fallback_warning \<in> set R \<longleftrightarrow> \<not> quiet args"
    | (d) k where "snd (reconstruct_block env ?args ?tgt c) = Inl EXIT_FAILURE" "0 < k"
          "failed_calls R = [k]" "Stderr fallback_warning \<notin> set R"
      using O unfolding reconstruct_outcome_def by blast
    then show ?thesis
    proof cases
      case a
      have "fst (main env args) = ?A @ EnterReconstruct # R @ stats_events env args"
        using M R a(1) by simp
      with Inr False A Re a stats_events_prologue[of env args] show ?thesis
        by (intro completed)
    next
      case b
      have "fst (main env args) = ?A @ EnterReconstruct # R @ []"
        using M R b(1) by simp
      with Inr False A Re b show ?thesis by (intro completed[of c ?A R "[]"]) simp_all
    next
      case c
      have "fst (main env args) = ?A @ EnterReconstruct # R @ EnterPixelDecode # P @ ?S"
        using M R P c(1) by simp
      with Inr False A Re Pe S c show ?thesis by (intro fallback)
    next
      case (d k)
      have "main env args = (?A @ EnterReconstruct # R, EXIT_FAILURE)"
        using M R d(1) by simp
      with Inr False A Re d show ?thesis by (intro fatal)
    qed
  qed
qed

subsection \<open>A failing reconstruct call\<close>

lemmas main_eval =
  main_def run_main_def decode_and_write_def read_input_def ValidateArgs_def
  detect_output_def adjusted_args_def exr_warning_def initial_decode_to_pixels_def
  reconstruct_block_def reconstruct_loop.simps DecompressJxlReconstructJPEG_def
  pixel_block_def negotiate_def pixel_loop.simps DecompressJxlToPackedPixelFile_def
  encode_and_write_def blend_stage_def write_layers.simps write_frames.simps
  WriteOptionalOutput_def Filename_def dec.simps digit_char_def
  num_worker_threads_of_def bind_def after_def ret_def exit_with_def emit_if_def Let_def

text \<open>
  Claim C1, as stated, says that the program emits the warning whenever a reconstruct
  call fails with no bytes produced. Line 516 prints it only without \<^verbatim>\<open>--quiet\<close>: the run of
  \<^verbatim>\<open>djxl --quiet in.jxl out.jpg\<close> on an input that is no recompressed JPEG falls back to the
  pixel path and writes nothing to standard error.
\<close>

theorem quiet_fallback_counterexample:
  "main demo_env quiet_jpg_args =
     ([EnterReconstruct, CallReconstruct False 0, EnterPixelDecode,
       CallDecodeToPixels [\<lparr>num_channels = 3, data_type = JXL_TYPE_UINT8,
                             endianness = JXL_NATIVE_ENDIAN, align = 0\<rparr>] False True,
       NotifyElapsed, SetImageSize, CallEncode [(''q'', ''95'')] True,
       CallWriteFile MainOutput ''out.jpg'' [1, 2] True],
      EXIT_SUCCESS)
   \<and> CallReconstruct False 0 \<in> set (fst (main demo_env quiet_jpg_args))
   \<and> Stderr fallback_warning \<notin> set (fst (main demo_env quiet_jpg_args))"
  by (simp add: main_eval demo_env_def demo_encoder_def quiet_jpg_args_def jpg_args_def
      default_args_def)

text \<open>
  Claim C1, amended. Let a reconstruct call fail, and let \<open>n\<close> be the size of the byte
  vector when it returns (the test of line 515).
  \<^item> If \<open>n = 0\<close>: the warning is on standard error exactly when \<^verbatim>\<open>--quiet\<close> was not given, the
    pixel path is entered exactly once, no reconstruct call follows that entry, and the
    failed call is the only failed reconstruct call of the run.
  \<^item> If \<open>n > 0\<close>: the exit status is \<^verbatim>\<open>EXIT_FAILURE\<close>, the pixel path is never entered and
    no pixel decode call is made.
\<close>

theorem reconstruct_failure_handling:
  assumes "CallReconstruct False n \<in> set (fst (main env args))"
  shows "(n = 0 \<longrightarrow>
            (Stderr fallback_warning \<in> set (fst (main env args)) \<longleftrightarrow> \<not> quiet args)
            \<and> count_list (fst (main env args)) EnterPixelDecode = 1
            \<and> list_all (\<lambda>e. \<not> is_reconstruct_call e)
                 (dropWhile (\<lambda>e. e \<noteq> EnterPixelDecode) (fst (main env args)))
            \<and> failed_calls (fst (main env args)) = [0])
         \<and> (0 < n \<longrightarrow>
            snd (main env args) = EXIT_FAILURE
            \<and> EnterPixelDecode \<notin> set (fst (main env args))
            \<and> list_all (\<lambda>e. \<not> is_pixel_call e) (fst (main env args)))"
proof -
  have n: "n \<in> set (failed_calls (fst (main env args)))"
    using assms by (simp add: failed_call_iff)
  show ?thesis
  proof (cases rule: main_shape[of env args])
    case (early A st)
    with n show ?thesis by (simp add: prologue_list)
  next
    case (direct c A P S)
    with n show ?thesis by (simp add: prologue_list pixel_list failed_calls_Cons)
  next
    case (completed c A R S)
    with n show ?thesis by (simp add: prologue_list failed_calls_Cons)
  next
    case (fatal c A R k)
    with n have "n = k" by (simp add: prologue_list failed_calls_Cons)
    moreover have "\<not> is_pixel_call EnterReconstruct" by (simp add: is_pixel_call_def)
    ultimately show ?thesis
      using fatal by (simp add: prologue_list reconstruct_list)
  next
    case (fallback c A R P S)
    from fallback n have n0: "n = 0"
      by (simp add: prologue_list pixel_list failed_calls_Cons)
    have notA: "\<And>x. x \<in> set A \<Longrightarrow> x \<noteq> EnterPixelDecode"
      using prologue_list(3)[OF fallback(4)] by auto
    have notR: "\<And>x. x \<in> set R \<Longrightarrow> x \<noteq> EnterPixelDecode"
      using reconstruct_list(1)[OF fallback(5)] by auto
    have dw: "dropWhile (\<lambda>e. e \<noteq> EnterPixelDecode) (fst (main env args))
                = EnterPixelDecode # P @ S"
    proof -
      have pre: "\<And>x. x \<in> set (A @ EnterReconstruct # R) \<Longrightarrow> x \<noteq> EnterPixelDecode"
        using notA notR by auto
      have "dropWhile (\<lambda>e. e \<noteq> EnterPixelDecode)
              ((A @ EnterReconstruct # R) @ (EnterPixelDecode # P @ S))
            = dropWhile (\<lambda>e. e \<noteq> EnterPixelDecode) (EnterPixelDecode # P @ S)"
        using pre by (rule dropWhile_append2)
      also have "\<dots> = EnterPixelDecode # P @ S" by simp
      finally show ?thesis using fallback(3) by simp
    qed
    have cnt: "count_list (fst (main env args)) EnterPixelDecode = 1"
      using fallback prologue_list(3)[OF fallback(4)] prologue_list(3)[OF fallback(7)]
        reconstruct_list(1)[OF fallback(5)] pixel_list(3)[OF fallback(6)]
      by (simp add: count_list_0_iff)
    have w: "Stderr fallback_warning \<in> set (fst (main env args)) \<longleftrightarrow> \<not> quiet args"
      using fallback prologue_list(2)[OF fallback(4)] prologue_list(2)[OF fallback(7)]
        pixel_list(2)[OF fallback(6)]
      by simp
    have f: "failed_calls (fst (main env args)) = [0]"
      using fallback by (simp add: prologue_list pixel_list failed_calls_Cons)
    have nr: "list_all (\<lambda>e. \<not> is_reconstruct_call e) (EnterPixelDecode # P @ S)"
      using pixel_list(5)[OF fallback(6)] prologue_list(5)[OF fallback(7)]
      by (simp add: is_reconstruct_call_def)
    show ?thesis using n0 w cnt f nr by (simp add: dw)
  qed
qed

theorem reconstruct_failure_handling_witness:
  "CallReconstruct False 0 \<in> set (fst (main demo_env quiet_jpg_args))
   \<and> Stderr fallback_warning \<notin> set (fst (main demo_env quiet_jpg_args))
   \<and> quiet quiet_jpg_args
   \<and> count_list (fst (main demo_env quiet_jpg_args)) EnterPixelDecode = 1
   \<and> failed_calls (fst (main demo_env quiet_jpg_args)) = [0]"
proof -
  have t: "fst (main demo_env quiet_jpg_args) =
     [EnterReconstruct, CallReconstruct False 0, EnterPixelDecode,
       CallDecodeToPixels [\<lparr>num_channels = 3, data_type = JXL_TYPE_UINT8,
                             endianness = JXL_NATIVE_ENDIAN, align = 0\<rparr>] False True,
       NotifyElapsed, SetImageSize, CallEncode [(''q'', ''95'')] True,
       CallWriteFile MainOutput ''out.jpg'' [1, 2] True]"
    by (simp add: main_eval demo_env_def demo_encoder_def quiet_jpg_args_def jpg_args_def
        default_args_def)
  have m: "CallReconstruct False 0 \<in> set (fst (main demo_env quiet_jpg_args))"
    by (simp add: t)
  have q: "quiet quiet_jpg_args"
    by (simp add: quiet_jpg_args_def)
  show ?thesis
    using reconstruct_failure_handling[OF m] m q by simp
qed


subsection \<open>The choice of the path\<close>

lemma find_after_prefix:
  "list_all (\<lambda>e. \<not> Q e) A \<Longrightarrow> Q x \<Longrightarrow> find Q (A @ x # ys) = Some x"
  by (induction A) auto

lemma takeWhile_prefix:
  "list_all (\<lambda>e. \<not> Q e) A \<Longrightarrow> Q x \<Longrightarrow> takeWhile (\<lambda>e. \<not> Q e) (A @ x # ys) = A"
  by (induction A) auto

lemma prologue_no_decode_call:
  "list_all prologue_event A \<Longrightarrow>
   list_all (\<lambda>e. \<not> is_reconstruct_call e \<and> \<not> is_pixel_call e) A"
  by (erule list_all_mono) (simp add: prologue_event_facts)

lemma reconstruct_chosen_iff:
  assumes "opt_jpeg_quality_id args < 0 \<longrightarrow> \<not> pixels_to_jpeg args"
  shows "\<not> initial_decode_to_pixels env args (codec (detect_output env args)) \<longleftrightarrow>
           file_out args \<noteq> None \<and> \<not> disable_output args
           \<and> fst (CodecFromPath env (the (file_out args))
                    (if output_format args \<noteq> [] then ''.'' @ output_format args else []))
               = kJPG
           \<and> \<not> pixels_to_jpeg args \<and> \<not> jpeg_quality_passed env args"
  using assms
  by (auto simp: initial_decode_to_pixels_def detect_output_def jpeg_quality_passed_def Let_def
      split: prod.splits)

text \<open>
  Claim C2. For a run that reaches the choice (it read its input and has an output file
  or \<^verbatim>\<open>--disable_output\<close>), with the flag \<^verbatim>\<open>--pixels_to_jpeg\<close> set only where it is registered
  (lines 123-137 register it together with \<^verbatim>\<open>--jpeg_quality\<close>):
  \<^item> the first path entered is the reconstruct path if and only if an output file is
    written, the codec detected for it is JPEG, and neither \<^verbatim>\<open>--pixels_to_jpeg\<close> nor
    \<^verbatim>\<open>--jpeg_quality\<close> was passed; otherwise it is the pixel path;
  \<^item> without an output file or with \<^verbatim>\<open>--disable_output\<close> the codec is unknown and the pixel
    path is chosen;
  \<^item> no decode call comes before the entry into the chosen path;
  \<^item> each path is entered at most once, and both are entered only in the fallback: the
    reconstruct path was chosen and its one failed call left the byte vector empty.
\<close>

theorem path_selection:
  assumes "snd (read_input env args) = Inr compressed"
    and "opt_jpeg_quality_id args < 0 \<longrightarrow> \<not> pixels_to_jpeg args"
  shows "(chosen_path (fst (main env args)) = Some EnterReconstruct \<longleftrightarrow>
            file_out args \<noteq> None \<and> \<not> disable_output args
            \<and> fst (CodecFromPath env (the (file_out args))
                     (if output_format args \<noteq> [] then ''.'' @ output_format args else []))
                = kJPG
            \<and> \<not> pixels_to_jpeg args \<and> \<not> jpeg_quality_passed env args)
         \<and> (chosen_path (fst (main env args)) \<noteq> Some EnterReconstruct \<longrightarrow>
              chosen_path (fst (main env args)) = Some EnterPixelDecode)
         \<and> (file_out args = None \<or> disable_output args \<longrightarrow>
              codec (detect_output env args) = kUnknown
              \<and> chosen_path (fst (main env args)) = Some EnterPixelDecode)
         \<and> list_all (\<lambda>e. \<not> is_reconstruct_call e \<and> \<not> is_pixel_call e)
              (takeWhile (\<lambda>e. \<not> is_path_entry e) (fst (main env args)))
         \<and> count_list (fst (main env args)) EnterReconstruct \<le> 1
         \<and> count_list (fst (main env args)) EnterPixelDecode \<le> 1
         \<and> (EnterReconstruct \<in> set (fst (main env args))
              \<and> EnterPixelDecode \<in> set (fst (main env args)) \<longrightarrow>
              chosen_path (fst (main env args)) = Some EnterReconstruct
              \<and> failed_calls (fst (main env args)) = [0])"
proof -
  note sel = reconstruct_chosen_iff[OF assms(2), of env]
  have unk: "file_out args = None \<or> disable_output args \<Longrightarrow>
             codec (detect_output env args) = kUnknown"
    by (auto simp: detect_output_def Let_def)
  have pe: "is_path_entry EnterReconstruct" "is_path_entry EnterPixelDecode"
    by (simp_all add: is_path_entry_def)
  show ?thesis
  proof (cases rule: main_shape[of env args])
    case (early A st)
    with assms(1) show ?thesis by simp
  next
    case (direct c A P S)
    have cp: "chosen_path (fst (main env args)) = Some EnterPixelDecode"
      unfolding chosen_path_def direct(3)
      using prologue_list(7)[OF direct(4)] pe(2) by (rule find_after_prefix)
    have tw: "takeWhile (\<lambda>e. \<not> is_path_entry e) (fst (main env args)) = A"
      unfolding direct(3)
      using prologue_list(7)[OF direct(4)] pe(2) by (rule takeWhile_prefix)
    have c1: "count_list (fst (main env args)) EnterReconstruct = 0"
      using direct(3) prologue_list(4)[OF direct(4)] prologue_list(4)[OF direct(6)]
        pixel_list(4)[OF direct(5)]
      by (simp add: count_list_0_iff)
    have c2: "count_list (fst (main env args)) EnterPixelDecode = 1"
      using direct(3) prologue_list(3)[OF direct(4)] prologue_list(3)[OF direct(6)]
        pixel_list(3)[OF direct(5)]
      by (simp add: count_list_0_iff)
    have nr: "EnterReconstruct \<notin> set (fst (main env args))"
      using c1 by (simp add: count_list_0_iff)
    show ?thesis
      using direct(2) sel unk cp tw c1 c2 nr prologue_no_decode_call[OF direct(4)]
      by auto
  next
    case (completed c A R S)
    have cp: "chosen_path (fst (main env args)) = Some EnterReconstruct"
      unfolding chosen_path_def completed(3)
      using prologue_list(7)[OF completed(4)] pe(1) by (rule find_after_prefix)
    have tw: "takeWhile (\<lambda>e. \<not> is_path_entry e) (fst (main env args)) = A"
      unfolding completed(3)
      using prologue_list(7)[OF completed(4)] pe(1) by (rule takeWhile_prefix)
    have c1: "count_list (fst (main env args)) EnterReconstruct = 1"
      using completed(3) prologue_list(4)[OF completed(4)] prologue_list(4)[OF completed(6)]
        reconstruct_list(2)[OF completed(5)]
      by (simp add: count_list_0_iff)
    have c2: "count_list (fst (main env args)) EnterPixelDecode = 0"
      using completed(3) prologue_list(3)[OF completed(4)] prologue_list(3)[OF completed(6)]
        reconstruct_list(1)[OF completed(5)]
      by (simp add: count_list_0_iff)
    have np: "EnterPixelDecode \<notin> set (fst (main env args))"
      using c2 by (simp add: count_list_0_iff)
    have k: "codec (detect_output env args) \<noteq> kUnknown"
      using completed(2) by (auto simp: initial_decode_to_pixels_def Let_def split: if_splits)
    show ?thesis
      using completed(2) sel unk k cp tw c1 c2 np prologue_no_decode_call[OF completed(4)]
      by auto
  next
    case (fatal c A R k)
    have t: "fst (main env args) = A @ EnterReconstruct # R" using fatal(3) by simp
    have cp: "chosen_path (fst (main env args)) = Some EnterReconstruct"
      unfolding chosen_path_def t
      using prologue_list(7)[OF fatal(4)] pe(1) by (rule find_after_prefix)
    have tw: "takeWhile (\<lambda>e. \<not> is_path_entry e) (fst (main env args)) = A"
      unfolding t
      using prologue_list(7)[OF fatal(4)] pe(1) by (rule takeWhile_prefix)
    have c1: "count_list (fst (main env args)) EnterReconstruct = 1"
      using t prologue_list(4)[OF fatal(4)] reconstruct_list(2)[OF fatal(5)]
      by (simp add: count_list_0_iff)
    have c2: "count_list (fst (main env args)) EnterPixelDecode = 0"
      using t prologue_list(3)[OF fatal(4)] reconstruct_list(1)[OF fatal(5)]
      by (simp add: count_list_0_iff)
    have np: "EnterPixelDecode \<notin> set (fst (main env args))"
      using c2 by (simp add: count_list_0_iff)
    have k: "codec (detect_output env args) \<noteq> kUnknown"
      using fatal(2) by (auto simp: initial_decode_to_pixels_def Let_def split: if_splits)
    show ?thesis
      using fatal(2) sel unk k cp tw c1 c2 np prologue_no_decode_call[OF fatal(4)]
      by auto
  next
    case (fallback c A R P S)
    have cp: "chosen_path (fst (main env args)) = Some EnterReconstruct"
      unfolding chosen_path_def fallback(3)
      using prologue_list(7)[OF fallback(4)] pe(1) by (rule find_after_prefix)
    have tw: "takeWhile (\<lambda>e. \<not> is_path_entry e) (fst (main env args)) = A"
      unfolding fallback(3)
      using prologue_list(7)[OF fallback(4)] pe(1) by (rule takeWhile_prefix)
    have c1: "count_list (fst (main env args)) EnterReconstruct = 1"
      using fallback(3) prologue_list(4)[OF fallback(4)] prologue_list(4)[OF fallback(7)]
        reconstruct_list(2)[OF fallback(5)] pixel_list(4)[OF fallback(6)]
      by (simp add: count_list_0_iff)
    have c2: "count_list (fst (main env args)) EnterPixelDecode = 1"
      using fallback(3) prologue_list(3)[OF fallback(4)] prologue_list(3)[OF fallback(7)]
        reconstruct_list(1)[OF fallback(5)] pixel_list(3)[OF fallback(6)]
      by (simp add: count_list_0_iff)
    have f: "failed_calls (fst (main env args)) = [0]"
      using fallback by (simp add: prologue_list pixel_list failed_calls_Cons)
    have k: "codec (detect_output env args) \<noteq> kUnknown"
      using fallback(2) by (auto simp: initial_decode_to_pixels_def Let_def split: if_splits)
    show ?thesis
      using fallback(2) sel unk k cp tw c1 c2 f prologue_no_decode_call[OF fallback(4)]
      by auto
  qed
qed

theorem path_selection_witness:
  "snd (read_input demo_env jpg_args) = Inr [255, 10, 0]
   \<and> opt_jpeg_quality_id jpg_args = 7 \<and> \<not> pixels_to_jpeg jpg_args
   \<and> chosen_path (fst (main demo_env jpg_args)) = Some EnterReconstruct
   \<and> failed_calls (fst (main demo_env jpg_args)) = [0]"
proof -
  have r: "snd (read_input demo_env jpg_args) = Inr [255, 10, 0]"
    by (simp add: read_input_def ValidateArgs_def snd_bind demo_env_def jpg_args_def
        default_args_def)
  have w: "opt_jpeg_quality_id jpg_args < 0 \<longrightarrow> \<not> pixels_to_jpeg jpg_args"
    by (simp add: jpg_args_def default_args_def)
  have f: "failed_calls (fst (main demo_env jpg_args)) = [0]"
    by (simp add: main_eval failed_calls_def demo_env_def demo_encoder_def jpg_args_def
        default_args_def)
  have v: "opt_jpeg_quality_id jpg_args = 7 \<and> \<not> pixels_to_jpeg jpg_args"
    by (simp add: jpg_args_def default_args_def)
  show ?thesis
    using path_selection[OF r w] r v f
    by (simp add: jpeg_quality_passed_def demo_env_def jpg_args_def default_args_def)
qed

subsection \<open>The formats of a decode without an output file\<close>

lemma pixel_loop_calls:
  "CallDecodeToPixels fs' cmyk' ok \<in> set (fst (pixel_loop env args c fs cmyk i n ppf d))
   \<Longrightarrow> fs' = fs \<and> cmyk' = cmyk"
proof (induction "n - i" arbitrary: i ppf d)
  case 0
  then show ?case by (subst (asm) pixel_loop.simps) simp
next
  case (Suc k)
  obtain ok1 ppf1 d1 where
    call: "DecodeImageJXL_pixels env i args fs cmyk c ppf d = (ok1, ppf1, d1)"
    by (cases "DecodeImageJXL_pixels env i args fs cmyk c ppf d")
  have IH: "CallDecodeToPixels fs' cmyk' ok
              \<in> set (fst (pixel_loop env args c fs cmyk (i + 1) n ppf1 d1))
            \<Longrightarrow> fs' = fs \<and> cmyk' = cmyk"
    using Suc.hyps(2) by (intro Suc.hyps(1)) simp_all
  from Suc.prems show ?case
    using IH call
    by (subst (asm) pixel_loop.simps)
       (auto simp: DecompressJxlToPackedPixelFile_def split: if_splits)
qed

lemma pixel_block_calls_no_output:
  assumes "filename_out tgt = []"
    and "CallDecodeToPixels fs cmyk ok \<in> set (fst (pixel_block env args tgt c))"
  shows "fs = push_float_formats [] \<and> \<not> cmyk"
proof -
  let ?L = "pixel_loop env args c (push_float_formats []) False 0 (num_reps args)
              (new_ppf env) 0"
  have "CallDecodeToPixels fs cmyk ok \<in> set (fst ?L)"
    using assms
    by (auto simp: pixel_block_def negotiate_def fst_bind snd_bind
        split: sum.splits prod.splits if_splits)
  then show ?thesis by (auto dest!: pixel_loop_calls)
qed

lemma pixel_call_origin:
  assumes "CallDecodeToPixels fs cmyk ok \<in> set (fst (main env args))"
  shows "\<exists>c. CallDecodeToPixels fs cmyk ok
           \<in> set (fst (pixel_block env (adjusted_args env args (detect_output env args))
                         (detect_output env args) c))"
proof -
  let ?e = "CallDecodeToPixels fs cmyk ok"
  have np: "\<And>es. list_all prologue_event es \<Longrightarrow> ?e \<notin> set es"
    using prologue_list(6) by (fastforce simp: list_all_iff is_pixel_call_def)
  have nr: "\<And>es. list_all reconstruct_event es \<Longrightarrow> ?e \<notin> set es"
    using reconstruct_list(3) by (fastforce simp: list_all_iff is_pixel_call_def)
  show ?thesis
  proof (cases "snd (read_input env args)")
    case (Inl st)
    then show ?thesis
      using assms main_early[of env args st] np[OF read_input_events[of env args]] by simp
  next
    case (Inr c)
    note A = np[OF read_input_events[of env args]]
      np[OF exr_warning_events[of args "detect_output env args"]]
      np[OF stats_events_prologue[of env args]]
    show ?thesis
    proof (cases "initial_decode_to_pixels env args (codec (detect_output env args))")
      case True
      show ?thesis
        using assms A unfolding main_direct[OF Inr True]
        by (auto split: sum.splits)
    next
      case False
      obtain R where R: "fst (reconstruct_block env
                                (adjusted_args env args (detect_output env args))
                                (detect_output env args) c) = EnterReconstruct # R"
        and O: "reconstruct_outcome (quiet (adjusted_args env args (detect_output env args)))
                  R (snd (reconstruct_block env
                            (adjusted_args env args (detect_output env args))
                            (detect_output env args) c))"
        using reconstruct_block_outcome by blast
      have "?e \<notin> set R" using O nr by (simp add: reconstruct_outcome_def)
      then show ?thesis
        using assms A R unfolding main_reconstruct[OF Inr False]
        by (auto split: sum.splits if_splits)
    qed
  qed
qed

lemma push_float_formats_Nil:
  "push_float_formats [] =
     [float_format 1 JXL_BIG_ENDIAN, float_format 1 JXL_LITTLE_ENDIAN,
      float_format 2 JXL_BIG_ENDIAN, float_format 2 JXL_LITTLE_ENDIAN,
      float_format 3 JXL_BIG_ENDIAN, float_format 3 JXL_LITTLE_ENDIAN,
      float_format 4 JXL_BIG_ENDIAN, float_format 4 JXL_LITTLE_ENDIAN]"
  by (simp add: push_float_formats_def float_format_def)

text \<open>
  Claim C8: when \<^verbatim>\<open>main\<close> has no output file name (no output file, \<^verbatim>\<open>--disable_output\<close>, or
  an empty name), every pixel decode call of the run is given exactly the eight formats of
  the channel counts 1, 2, 3, 4 crossed with big and little endian, with floating-point
  samples and alignment 0, in this order; the list is not empty. The CMYK flag is off.
\<close>

theorem float_formats_without_encoder:
  assumes "filename_out (detect_output env args) = []"
    and "CallDecodeToPixels fs cmyk ok \<in> set (fst (main env args))"
  shows "fs = concat (map (\<lambda>nc. map (float_format nc) [JXL_BIG_ENDIAN, JXL_LITTLE_ENDIAN])
                        [1, 2, 3, 4])
         \<and> length fs = 8 \<and> distinct fs \<and> fs \<noteq> []
         \<and> (\<forall>f \<in> set fs. data_type f = JXL_TYPE_FLOAT \<and> align f = 0)
         \<and> \<not> cmyk
         \<and> (file_out args = None \<or> disable_output args
              \<longrightarrow> filename_out (detect_output env args) = [])"
proof -
  obtain c where "CallDecodeToPixels fs cmyk ok
      \<in> set (fst (pixel_block env (adjusted_args env args (detect_output env args))
                    (detect_output env args) c))"
    using pixel_call_origin[OF assms(2)] by blast
  then have "fs = push_float_formats [] \<and> \<not> cmyk"
    using assms(1) by (intro pixel_block_calls_no_output)
  then show ?thesis
    by (auto simp: push_float_formats_Nil float_format_def detect_output_def Let_def)
qed

theorem float_formats_without_encoder_witness:
  "filename_out (detect_output demo_env
     (default_args\<lparr>file_in := Some ''in.jxl'', disable_output := True\<rparr>)) = []
   \<and> CallDecodeToPixels
        [float_format 1 JXL_BIG_ENDIAN, float_format 1 JXL_LITTLE_ENDIAN,
         float_format 2 JXL_BIG_ENDIAN, float_format 2 JXL_LITTLE_ENDIAN,
         float_format 3 JXL_BIG_ENDIAN, float_format 3 JXL_LITTLE_ENDIAN,
         float_format 4 JXL_BIG_ENDIAN, float_format 4 JXL_LITTLE_ENDIAN] False True
       \<in> set (fst (main demo_env
            (default_args\<lparr>file_in := Some ''in.jxl'', disable_output := True\<rparr>)))"
proof -
  let ?args = "default_args\<lparr>file_in := Some ''in.jxl'', disable_output := True\<rparr>"
  have f: "filename_out (detect_output demo_env ?args) = []"
    by (simp add: detect_output_def default_args_def)
  have m: "CallDecodeToPixels (push_float_formats []) False True
             \<in> set (fst (main demo_env ?args))"
    by (simp add: main_eval push_float_formats_def demo_env_def default_args_def)
  show ?thesis
    using float_formats_without_encoder[OF f m] f m
    by (simp add: push_float_formats_Nil)
qed

subsection \<open>Repetitions, timing samples, encoding and the output file\<close>

lemma uncounted_list:
  assumes "list_all uncounted_event es"
  shows "filter is_pixel_call es = []" and "count_list es NotifyElapsed = 0"
    and "filter is_encode_call es = []" and "filter is_main_write es = []"
  using assms by (induction es) (auto simp: uncounted_event_def)

lemma prologue_uncounted: "list_all prologue_event es \<Longrightarrow> list_all uncounted_event es"
  by (erule list_all_mono) (simp add: uncounted_event_def prologue_event_facts)

lemma uncounted_simps [simp]:
  "uncounted_event (Stderr s)"
  "uncounted_event (VerbosePrintf l s)"
  "uncounted_event (CallAlphaBlend background ok1)"
  "uncounted_event (CallWriteFile OptionalOutput fn bs ok2)"
  "uncounted_event EnterPixelDecode"
  by (simp_all add: uncounted_event_def is_pixel_call_def is_encode_call_def
      is_main_write_def)

lemma blend_stage_uncounted: "list_all uncounted_event (fst (blend_stage env args ppf))"
proof (cases "alpha_blend args")
  case False
  then show ?thesis by (simp add: blend_stage_def)
next
  case True
  show ?thesis
  proof (cases "ParseBackgroundColor (background_spec args)")
    case (Inl e)
    with True show ?thesis by (simp add: blend_stage_def)
  next
    case (Inr r)
    obtain parsed background where r: "r = (parsed, background)" by (cases r)
    obtain ok ppf' where b: "AlphaBlend env ppf background = (ok, ppf')"
      by (cases "AlphaBlend env ppf background")
    show ?thesis using True Inr r b by (simp add: blend_stage_def fst_bind)
  qed
qed

lemma blend_stage_ok:
  assumes "alpha_blend args \<longrightarrow>
             (\<exists>r. ParseBackgroundColor (background_spec args) = Inr r)
             \<and> (\<forall>p background. fst (AlphaBlend env p background))"
  shows "\<exists>ppf'. snd (blend_stage env args ppf) = Inr ppf'"
proof (cases "alpha_blend args")
  case False
  then show ?thesis by (simp add: blend_stage_def)
next
  case True
  then obtain parsed background where
    r: "ParseBackgroundColor (background_spec args) = Inr (parsed, background)"
    using assms by fastforce
  obtain ok ppf' where b: "AlphaBlend env ppf background = (ok, ppf')"
    by (cases "AlphaBlend env ppf background")
  have "ok" using assms True b by (metis fst_conv)
  then show ?thesis using True r b by (simp add: blend_stage_def snd_bind)
qed

lemma write_optional_outputs_uncounted:
  "list_all uncounted_event (fst (write_optional_outputs env outs))"
proof (induction outs)
  case Nil
  then show ?case by simp
next
  case (Cons o1 outs)
  obtain filename bs where o1: "o1 = (filename, bs)" by (cases o1)
  show ?case using Cons by (simp add: o1 WriteOptionalOutput_def Let_def)
qed

lemma write_single_output:
  assumes "length (bitstreams img) = 1"
  shows "\<exists>bs ok rest. fst (write_layers env args tgt img 1 1 0)
            = CallWriteFile MainOutput (filename_out tgt) bs ok # rest
          \<and> list_all uncounted_event rest"
  using assms
  by (simp add: write_layers.simps write_frames.simps Let_def fst_bind snd_bind
      Filename_def)

lemma encode_and_write_counts:
  assumes blend: "alpha_blend args \<longrightarrow>
             (\<exists>r. ParseBackgroundColor (background_spec args) = Inr r)
             \<and> (\<forall>p background. fst (AlphaBlend env p background))"
    and enc: "\<forall>options p. \<exists>img. Encode encoder options p = Some img
                \<and> length (bitstreams img) = 1 \<and> extra_channel_bitstreams img = []"
  shows "\<exists>B options bs ok rest.
           fst (encode_and_write env args tgt encoder ppf)
             = B @ CallEncode options True
                 # CallWriteFile MainOutput (filename_out tgt) bs ok # rest
           \<and> list_all uncounted_event B \<and> list_all uncounted_event rest"
proof -
  obtain ppf' where p: "snd (blend_stage env args ppf) = Inr ppf'"
    using blend_stage_ok[OF blend] by blast
  let ?options = "[(''q'', dec (jpeg_quality args))]
                    @ (if use_sjpeg args then [(''jpeg_encoder'', ''sjpeg'')] else [])"
  obtain img where img: "Encode encoder ?options ppf' = Some img"
    and one: "length (bitstreams img) = 1" and none: "extra_channel_bitstreams img = []"
    using enc by blast
  obtain bs ok rest where w: "fst (write_layers env args tgt img 1 1 0)
            = CallWriteFile MainOutput (filename_out tgt) bs ok # rest"
    and rest: "list_all uncounted_event rest"
    using write_single_output[OF one] by blast
  let ?B = "fst (blend_stage env args ppf)
            @ (if quiet args then [] else [VerbosePrintf 2 ''Encoding decoded image''])"
  let ?O = "case snd (write_layers env args tgt img 1 1 0) of
              Inl st \<Rightarrow> []
            | Inr u \<Rightarrow> fst (write_optional_outputs env
                        [(preview_out args, preview_bitstream img),
                         (icc_out args, ppf_icc env ppf'),
                         (orig_icc_out args, ppf_orig_icc env ppf'),
                         (metadata_out args, metadata img)])"
  have "fst (encode_and_write env args tgt encoder ppf)
          = ?B @ CallEncode ?options True
              # CallWriteFile MainOutput (filename_out tgt) bs ok # (rest @ ?O)"
    using p img one none w
    by (simp add: encode_and_write_def Let_def fst_bind snd_bind
        del: write_optional_outputs.simps)
  moreover have "list_all uncounted_event ?B"
    by (simp add: blend_stage_uncounted)
  moreover have "list_all uncounted_event (rest @ ?O)"
    using rest
    by (simp add: write_optional_outputs_uncounted split: sum.splits
        del: write_optional_outputs.simps)
  ultimately show ?thesis by blast
qed

lemma pixel_loop_success:
  assumes "\<forall>j<n. \<forall>p k. fst (DecodeImageJXL_pixels env j args fs cmyk c p k)"
  shows "\<exists>ppf' d'. pixel_loop env args c fs cmyk i n ppf d =
           (concat (replicate (n - i)
                      [CallDecodeToPixels fs cmyk True, NotifyElapsed, SetImageSize]),
            Inr (ppf', d'))"
proof (induction "n - i" arbitrary: i ppf d)
  case 0
  then show ?case by (subst pixel_loop.simps) (simp add: ret_def)
next
  case (Suc k)
  then have lt: "i < n" by simp
  obtain ok ppf1 d1 where
    call: "DecodeImageJXL_pixels env i args fs cmyk c ppf d = (ok, ppf1, d1)"
    by (cases "DecodeImageJXL_pixels env i args fs cmyk c ppf d")
  have ok: "ok" using assms lt call by (metis fst_conv)
  have kk: "k = n - (i + 1)" using Suc.hyps(2) by simp
  obtain ppf' d' where IH: "pixel_loop env args c fs cmyk (i + 1) n ppf1 d1 =
           (concat (replicate (n - (i + 1))
                      [CallDecodeToPixels fs cmyk True, NotifyElapsed, SetImageSize]),
            Inr (ppf', d'))"
    using Suc.hyps(1)[OF kk, of ppf1 d1] by blast
  have n: "n - i = Suc (n - (i + 1))" using lt by simp
  show ?case
    using lt call ok IH
    by (subst pixel_loop.simps)
       (simp add: DecompressJxlToPackedPixelFile_def after_def n)
qed

lemma count_repeated_calls:
  "length (filter is_pixel_call
     (concat (replicate k [CallDecodeToPixels fs cmyk True, NotifyElapsed, SetImageSize]))) = k"
  "count_list
     (concat (replicate k [CallDecodeToPixels fs cmyk True, NotifyElapsed, SetImageSize]))
     NotifyElapsed = k"
  "filter is_encode_call
     (concat (replicate k [CallDecodeToPixels fs cmyk True, NotifyElapsed, SetImageSize])) = []"
  "filter is_main_write
     (concat (replicate k [CallDecodeToPixels fs cmyk True, NotifyElapsed, SetImageSize])) = []"
  by (induction k) (simp_all add: is_pixel_call_def is_encode_call_def is_main_write_def)

lemma pixel_block_counts:
  assumes out: "filename_out tgt \<noteq> []"
    and encoder: "Encoder_FromExtension env (extension tgt) = Some encoder"
    and dec: "\<forall>j<num_reps args. \<forall>fs cmyk p k.
                fst (DecodeImageJXL_pixels env j args fs cmyk c p k)"
    and blend: "alpha_blend args \<longrightarrow>
             (\<exists>r. ParseBackgroundColor (background_spec args) = Inr r)
             \<and> (\<forall>p background. fst (AlphaBlend env p background))"
    and enc: "\<forall>options p. \<exists>img. Encode encoder options p = Some img
                \<and> length (bitstreams img) = 1 \<and> extra_channel_bitstreams img = []"
  shows "length (filter is_pixel_call (fst (pixel_block env args tgt c))) = num_reps args
         \<and> count_list (fst (pixel_block env args tgt c)) NotifyElapsed = num_reps args
         \<and> length (filter is_encode_call (fst (pixel_block env args tgt c))) = 1
         \<and> length (filter is_main_write (fst (pixel_block env args tgt c))) = 1
         \<and> (\<exists>bs ok. CallWriteFile MainOutput (filename_out tgt) bs ok
                       \<in> set (fst (pixel_block env args tgt c)))"
proof -
  let ?fs = "if alpha_blend args then AddFormatsWithAlphaChannel (AcceptedFormats encoder)
             else AcceptedFormats encoder"
  have neg: "negotiate env args tgt = ([], Inr (?fs, Some encoder, AcceptsCmyk encoder))"
    using out encoder by (simp add: negotiate_def bind_def ret_def)
  obtain ppf' d' where L: "pixel_loop env args c ?fs (AcceptsCmyk encoder) 0 (num_reps args)
                             (new_ppf env) 0 =
           (concat (replicate (num_reps args - 0)
                      [CallDecodeToPixels ?fs (AcceptsCmyk encoder) True, NotifyElapsed,
                       SetImageSize]),
            Inr (ppf', d'))"
    using pixel_loop_success[of "num_reps args" env args ?fs "AcceptsCmyk encoder" c 0
        "new_ppf env" 0] dec
    by blast
  obtain B options bs ok rest where
    E: "fst (encode_and_write env args tgt encoder ppf')
             = B @ CallEncode options True
                 # CallWriteFile MainOutput (filename_out tgt) bs ok # rest"
    and B: "list_all uncounted_event B" and rest: "list_all uncounted_event rest"
    using encode_and_write_counts[OF blend enc] by blast
  let ?M = "(if quiet args then [] else [VerbosePrintf 0 ''Decoded to pixels.''])
            @ (if print_read_bytes args then [Stderr (''Decoded bytes: '' @ dec d')] else [])"
  have M: "list_all uncounted_event ?M" by simp
  have t: "fst (pixel_block env args tgt c) =
             EnterPixelDecode
             # concat (replicate (num_reps args)
                         [CallDecodeToPixels ?fs (AcceptsCmyk encoder) True, NotifyElapsed,
                          SetImageSize])
             @ ?M @ B @ CallEncode options True
             # CallWriteFile MainOutput (filename_out tgt) bs ok # rest"
    using neg L E by (simp add: pixel_block_def fst_bind snd_bind)
  have ex: "\<exists>bs ok. CallWriteFile MainOutput (filename_out tgt) bs ok
                    \<in> set (fst (pixel_block env args tgt c))"
    unfolding t by (intro exI[of _ bs] exI[of _ ok]) simp
  have counts:
    "length (filter is_pixel_call (fst (pixel_block env args tgt c))) = num_reps args
     \<and> count_list (fst (pixel_block env args tgt c)) NotifyElapsed = num_reps args
     \<and> length (filter is_encode_call (fst (pixel_block env args tgt c))) = 1
     \<and> length (filter is_main_write (fst (pixel_block env args tgt c))) = 1"
    unfolding t
    using uncounted_list[OF M] uncounted_list[OF B] uncounted_list[OF rest]
    by (simp add: count_repeated_calls is_pixel_call_def is_encode_call_def
        is_main_write_def)
  show ?thesis using counts ex by simp
qed

text \<open>
  In both loops a timing sample is recorded for each call that returned successfully and
  for no other: the number of samples is the number of completed repetitions.
\<close>

lemma pixel_loop_samples:
  "count_list (fst (pixel_loop env args c fs cmyk i n ppf d)) NotifyElapsed
     = length (filter is_completed_call (fst (pixel_loop env args c fs cmyk i n ppf d)))"
proof (induction "n - i" arbitrary: i ppf d)
  case 0
  then show ?case by (subst (1 2) pixel_loop.simps) simp
next
  case (Suc k)
  obtain ok ppf1 d1 where
    call: "DecodeImageJXL_pixels env i args fs cmyk c ppf d = (ok, ppf1, d1)"
    by (cases "DecodeImageJXL_pixels env i args fs cmyk c ppf d")
  have kk: "k = n - (i + 1)" using Suc.hyps(2) by simp
  note IH = Suc.hyps(1)[OF kk, of ppf1 d1]
  show ?case
    using IH call
    by (subst (1 2) pixel_loop.simps)
       (simp add: DecompressJxlToPackedPixelFile_def is_completed_call_def)
qed

lemma reconstruct_loop_samples:
  "count_list (fst (reconstruct_loop env args c i n b)) NotifyElapsed
     = length (filter is_completed_call (fst (reconstruct_loop env args c i n b)))"
proof (induction "n - i" arbitrary: i b)
  case 0
  then show ?case by (subst (1 2) reconstruct_loop.simps) simp
next
  case (Suc k)
  obtain ok b1 where
    call: "DecodeImageJXL_jpeg env i (allow_partial_files args) c b = (ok, b1)"
    by (cases "DecodeImageJXL_jpeg env i (allow_partial_files args) c b")
  have kk: "k = n - (i + 1)" using Suc.hyps(2) by simp
  note IH = Suc.hyps(1)[OF kk, of b1]
  show ?case
    using IH call
    by (subst (1 2) reconstruct_loop.simps)
       (simp add: DecompressJxlReconstructJPEG_def is_completed_call_def fst_bind)
qed

text \<open>
  Claim C9, as stated, holds whenever the decode calls and the encoder succeed. With
  \<^verbatim>\<open>--alpha_blend\<close> lines 590-593 end the run when \<^verbatim>\<open>AlphaBlend\<close> fails, before the encoder is
  called: three decode calls, three samples, no encoding and no output file.
\<close>

theorem alpha_blend_failure_counterexample:
  "main no_alpha_env blend_args =
     ([Stderr ''JPEG XL decoder v0.9.0'', VerbosePrintf 1 ''Read 3 compressed bytes.'',
       EnterPixelDecode,
       CallDecodeToPixels
         [\<lparr>num_channels = 3, data_type = JXL_TYPE_UINT8,
            endianness = JXL_NATIVE_ENDIAN, align = 0\<rparr>,
          \<lparr>num_channels = 4, data_type = JXL_TYPE_UINT8,
            endianness = JXL_NATIVE_ENDIAN, align = 0\<rparr>] False True,
       NotifyElapsed, SetImageSize,
       CallDecodeToPixels
         [\<lparr>num_channels = 3, data_type = JXL_TYPE_UINT8,
            endianness = JXL_NATIVE_ENDIAN, align = 0\<rparr>,
          \<lparr>num_channels = 4, data_type = JXL_TYPE_UINT8,
            endianness = JXL_NATIVE_ENDIAN, align = 0\<rparr>] False True,
       NotifyElapsed, SetImageSize,
       CallDecodeToPixels
         [\<lparr>num_channels = 3, data_type = JXL_TYPE_UINT8,
            endianness = JXL_NATIVE_ENDIAN, align = 0\<rparr>,
          \<lparr>num_channels = 4, data_type = JXL_TYPE_UINT8,
            endianness = JXL_NATIVE_ENDIAN, align = 0\<rparr>] False True,
       NotifyElapsed, SetImageSize,
       VerbosePrintf 0 ''Decoded to pixels.'',
       CallAlphaBlend (Some (1, 1, 1)) False, Stderr ''AlphaBlend failed''],
      EXIT_FAILURE)
   \<and> filter is_encode_call (fst (main no_alpha_env blend_args)) = []
   \<and> filter is_main_write (fst (main no_alpha_env blend_args)) = []"
  by (simp add: main_eval ParseBackgroundColor_def AddFormatsWithAlphaChannel_def
      alpha_loop.simps add_format_def is_encode_call_def is_main_write_def
      no_alpha_env_def demo_env_def demo_encoder_def blend_args_def png_args_def
      default_args_def)

lemma reconstruct_list_counts:
  assumes "list_all reconstruct_event es"
  shows "filter is_pixel_call es = []" and "filter is_encode_call es = []"
    and "filter is_main_write es = []"
  using assms by (induction es) (auto dest: reconstruct_event_facts)

text \<open>
  A run that enters the pixel path consists of what came before, in which nothing is
  decoded to pixels, encoded or written as a main output, then the events of the pixel
  path, then at most the statistics.
\<close>

lemma pixel_path_split:
  assumes reach: "snd (read_input env args) = Inr c"
    and entered: "EnterPixelDecode \<in> set (fst (main env args))"
  shows "\<exists>pre S. fst (main env args)
             = pre @ fst (pixel_block env (adjusted_args env args (detect_output env args))
                            (detect_output env args) c) @ S
           \<and> EnterPixelDecode \<notin> set pre
           \<and> filter is_pixel_call pre = [] \<and> filter is_encode_call pre = []
           \<and> filter is_main_write pre = []
           \<and> (initial_decode_to_pixels env args (codec (detect_output env args))
                \<longrightarrow> count_list pre NotifyElapsed = 0)
           \<and> list_all uncounted_event S"
proof -
  let ?tgt = "detect_output env args"
  let ?args = "adjusted_args env args ?tgt"
  let ?P = "fst (pixel_block env ?args ?tgt c)"
  let ?S = "case snd (pixel_block env ?args ?tgt c) of
              Inl st \<Rightarrow> [] | Inr u \<Rightarrow> stats_events env args"
  let ?A = "fst (read_input env args) @ fst (exr_warning args ?tgt)"
  have A: "list_all prologue_event ?A"
    by (simp add: read_input_events exr_warning_events)
  have S: "list_all uncounted_event ?S"
    by (intro prologue_uncounted) (simp add: stats_events_prologue split: sum.splits)
  note Au = uncounted_list[OF prologue_uncounted[OF A]]
  show ?thesis
  proof (cases "initial_decode_to_pixels env args (codec ?tgt)")
    case True
    have "fst (main env args) = ?A @ ?P @ ?S"
      using main_direct[OF reach True] by simp
    then show ?thesis
      using True Au prologue_list(3)[OF A] S by blast
  next
    case False
    obtain R where R: "fst (reconstruct_block env ?args ?tgt c) = EnterReconstruct # R"
      and O: "reconstruct_outcome (quiet ?args) R (snd (reconstruct_block env ?args ?tgt c))"
      using reconstruct_block_outcome by blast
    have Re: "list_all reconstruct_event R" using O by (simp add: reconstruct_outcome_def)
    note M = main_reconstruct[OF reach False]
    have notin: "EnterPixelDecode \<notin> set (?A @ EnterReconstruct # R)"
      using prologue_list(3)[OF A] reconstruct_list(1)[OF Re] by simp
    have ns: "EnterPixelDecode \<notin> set (stats_events env args)"
      using prologue_list(3)[OF stats_events_prologue[of env args]] .
    have T: "snd (reconstruct_block env ?args ?tgt c) = Inr True"
    proof (rule ccontr)
      assume "snd (reconstruct_block env ?args ?tgt c) \<noteq> Inr True"
      then have "fst (main env args) = ?A @ EnterReconstruct # R
                 \<or> fst (main env args) = (?A @ EnterReconstruct # R) @ stats_events env args"
        using M R by (cases "snd (reconstruct_block env ?args ?tgt c)") auto
      then show False using entered notin ns by auto
    qed
    have t: "fst (main env args) = (?A @ EnterReconstruct # R) @ ?P @ ?S"
      using M R T by simp
    have c1: "filter is_pixel_call (?A @ EnterReconstruct # R) = []"
      using Au(1) reconstruct_list_counts(1)[OF Re] by (simp add: is_pixel_call_def)
    have c2: "filter is_encode_call (?A @ EnterReconstruct # R) = []"
      using Au(3) reconstruct_list_counts(2)[OF Re] by (simp add: is_encode_call_def)
    have c3: "filter is_main_write (?A @ EnterReconstruct # R) = []"
      using Au(4) reconstruct_list_counts(3)[OF Re] by (simp add: is_main_write_def)
    show ?thesis
      using t notin c1 c2 c3 False S by blast
  qed
qed

text \<open>
  Claim C9, amended: in a run that enters the pixel path with an encoder selected, when
  every decode call of the \<open>N = num_reps\<close> repetitions succeeds, the encoder succeeds with
  one frame and no extra channel, and alpha blending is not requested or succeeds (the
  background parser returns and \<^verbatim>\<open>AlphaBlend\<close> returns \<^verbatim>\<open>true\<close>): the run makes exactly \<open>N\<close>
  pixel decode calls, the pixel path records exactly \<open>N\<close> elapsed-time samples (they are all
  the samples of the run when the pixel path was chosen at line 502), the run encodes
  exactly once and writes exactly one main output file, the file \<^verbatim>\<open>filename_out\<close>.
\<close>

theorem repetitions_encode_once:
  assumes "snd (read_input env args) = Inr compressed"
    and "EnterPixelDecode \<in> set (fst (main env args))"
    and "filename_out (detect_output env args) \<noteq> []"
    and "Encoder_FromExtension env (extension (detect_output env args)) = Some encoder"
    and "\<forall>j<num_reps args. \<forall>a fs cmyk p k.
           fst (DecodeImageJXL_pixels env j a fs cmyk compressed p k)"
    and "\<forall>options p. \<exists>img. Encode encoder options p = Some img
           \<and> length (bitstreams img) = 1 \<and> extra_channel_bitstreams img = []"
    and "alpha_blend args \<longrightarrow>
           (\<exists>r. ParseBackgroundColor (background_spec args) = Inr r)
           \<and> (\<forall>p background. fst (AlphaBlend env p background))"
  shows "length (filter is_pixel_call (fst (main env args))) = num_reps args
         \<and> count_list (dropWhile (\<lambda>e. e \<noteq> EnterPixelDecode) (fst (main env args)))
              NotifyElapsed = num_reps args
         \<and> (initial_decode_to_pixels env args (codec (detect_output env args)) \<longrightarrow>
              count_list (fst (main env args)) NotifyElapsed = num_reps args)
         \<and> length (filter is_encode_call (fst (main env args))) = 1
         \<and> length (filter is_main_write (fst (main env args))) = 1
         \<and> (\<exists>bs ok. CallWriteFile MainOutput (filename_out (detect_output env args)) bs ok
                       \<in> set (fst (main env args)))"
proof -
  let ?tgt = "detect_output env args"
  let ?args = "adjusted_args env args ?tgt"
  let ?P = "fst (pixel_block env ?args ?tgt compressed)"
  obtain pre S where t: "fst (main env args) = pre @ ?P @ S"
    and pre: "EnterPixelDecode \<notin> set pre" "filter is_pixel_call pre = []"
      "filter is_encode_call pre = []" "filter is_main_write pre = []"
    and direct: "initial_decode_to_pixels env args (codec ?tgt)
                   \<longrightarrow> count_list pre NotifyElapsed = 0"
    and S: "list_all uncounted_event S"
    using pixel_path_split[OF assms(1,2)] by blast
  obtain P' where P': "?P = EnterPixelDecode # P'"
    using pixel_block_events[of env ?args ?tgt compressed] by blast
  have P: "length (filter is_pixel_call ?P) = num_reps args
         \<and> count_list ?P NotifyElapsed = num_reps args
         \<and> length (filter is_encode_call ?P) = 1
         \<and> length (filter is_main_write ?P) = 1
         \<and> (\<exists>bs ok. CallWriteFile MainOutput (filename_out ?tgt) bs ok \<in> set ?P)"
    using pixel_block_counts[of ?tgt env encoder ?args compressed] assms(3-7) by simp
  have dw: "dropWhile (\<lambda>e. e \<noteq> EnterPixelDecode) (fst (main env args)) = ?P @ S"
  proof -
    have "dropWhile (\<lambda>e. e \<noteq> EnterPixelDecode) (pre @ (?P @ S))
            = dropWhile (\<lambda>e. e \<noteq> EnterPixelDecode) (?P @ S)"
      using pre(1) by (intro dropWhile_append2) auto
    also have "\<dots> = ?P @ S" by (simp add: P')
    finally show ?thesis by (simp add: t)
  qed
  have c1: "length (filter is_pixel_call (fst (main env args))) = num_reps args"
    using P pre(2) uncounted_list(1)[OF S] by (simp add: t)
  have c2: "count_list (dropWhile (\<lambda>e. e \<noteq> EnterPixelDecode) (fst (main env args)))
              NotifyElapsed = num_reps args"
    using P uncounted_list(2)[OF S] by (simp add: dw)
  have c3: "initial_decode_to_pixels env args (codec ?tgt) \<longrightarrow>
              count_list (fst (main env args)) NotifyElapsed = num_reps args"
    using P direct uncounted_list(2)[OF S] by (simp add: t)
  have c4: "length (filter is_encode_call (fst (main env args))) = 1"
    using P pre(3) uncounted_list(3)[OF S] by (simp add: t)
  have c5: "length (filter is_main_write (fst (main env args))) = 1"
    using P pre(4) uncounted_list(4)[OF S] by (simp add: t)
  have c6: "\<exists>bs ok. CallWriteFile MainOutput (filename_out ?tgt) bs ok
                       \<in> set (fst (main env args))"
    using P by (auto simp: t)
  show ?thesis using c1 c2 c3 c4 c5 c6 by blast
qed

theorem repetitions_encode_once_witness:
  "num_reps (png_args\<lparr>num_reps := 3\<rparr>) = 3
   \<and> EnterPixelDecode \<in> set (fst (main demo_env (png_args\<lparr>num_reps := 3\<rparr>)))
   \<and> length (filter is_pixel_call (fst (main demo_env (png_args\<lparr>num_reps := 3\<rparr>)))) = 3
   \<and> count_list (fst (main demo_env (png_args\<lparr>num_reps := 3\<rparr>))) NotifyElapsed = 3
   \<and> length (filter is_encode_call (fst (main demo_env (png_args\<lparr>num_reps := 3\<rparr>)))) = 1
   \<and> length (filter is_main_write (fst (main demo_env (png_args\<lparr>num_reps := 3\<rparr>)))) = 1"
proof -
  let ?args = "png_args\<lparr>num_reps := 3\<rparr>"
  have r: "snd (read_input demo_env ?args) = Inr [255, 10, 0]"
    by (simp add: read_input_def ValidateArgs_def snd_bind demo_env_def png_args_def
        default_args_def)
  have t: "detect_output demo_env ?args =
             \<lparr>filename_out = ''out.png'', extension = ''.png'', codec = kPNG\<rparr>"
    by (simp add: detect_output_def demo_env_def png_args_def default_args_def)
  have d: "initial_decode_to_pixels demo_env ?args (codec (detect_output demo_env ?args))"
    by (simp add: t initial_decode_to_pixels_def)
  have m: "EnterPixelDecode \<in> set (fst (main demo_env ?args))"
    using main_direct[OF r d] pixel_block_events[of demo_env
        "adjusted_args demo_env ?args (detect_output demo_env ?args)"
        "detect_output demo_env ?args" "[255, 10, 0]"]
    by auto
  have f: "filename_out (detect_output demo_env ?args) \<noteq> []" by (simp add: t)
  have x: "extension (detect_output demo_env ?args) = ''.png''" by (simp add: t)
  have e: "Encoder_FromExtension demo_env (extension (detect_output demo_env ?args))
             = Some demo_encoder"
    unfolding x by (simp add: demo_env_def)
  have p: "\<forall>j<num_reps ?args. \<forall>a fs cmyk p k.
             fst (DecodeImageJXL_pixels demo_env j a fs cmyk [255, 10, 0] p k)"
    by (simp add: demo_env_def)
  have g: "\<forall>options p. \<exists>img. Encode demo_encoder options p = Some img
             \<and> length (bitstreams img) = 1 \<and> extra_channel_bitstreams img = []"
    by (simp add: demo_encoder_def)
  have b: "alpha_blend ?args \<longrightarrow>
             (\<exists>r. ParseBackgroundColor (background_spec ?args) = Inr r)
             \<and> (\<forall>p background. fst (AlphaBlend demo_env p background))"
    by (simp add: png_args_def default_args_def)
  have n: "num_reps ?args = 3" by simp
  show ?thesis
    using repetitions_encode_once[OF r m f e p g b] n m d by simp
qed

subsection \<open>A background spec that does not parse\<close>

text \<open>
  When \<^verbatim>\<open>ParseBackgroundColor\<close> returns \<^verbatim>\<open>false\<close>, lines 586-589 print the message and go on:
  \<^verbatim>\<open>AlphaBlend\<close> is called with the array as it is, and only its own failure ends the run.
\<close>

lemma invalid_background_warns:
  assumes "alpha_blend args"
    and "ParseBackgroundColor (background_spec args) = Inr (False, background)"
  shows "fst (blend_stage env args ppf) =
           [Stderr (''Invalid background color '' @ background_spec args),
            CallAlphaBlend background (fst (AlphaBlend env ppf background))]
           @ (if fst (AlphaBlend env ppf background) then [] else [Stderr ''AlphaBlend failed''])
         \<and> snd (blend_stage env args ppf) =
           (if fst (AlphaBlend env ppf background)
            then Inr (snd (AlphaBlend env ppf background)) else Inl EXIT_FAILURE)"
  using assms
  by (cases "AlphaBlend env ppf background") (simp add: blend_stage_def fst_bind snd_bind)

text \<open>
  Claim C4 says that a background spec that fails to parse never ends the run by itself.
  For \<^verbatim>\<open>--background '#zzzzzz'\<close> the spec has seven characters and starts with \<^verbatim>\<open>#\<close>, so line
  346 calls \<^verbatim>\<open>std::stoi\<close>, which finds no digit and throws \<^verbatim>\<open>std::invalid_argument\<close>; nothing
  catches it. The run ends after the decode, without the message of line 587, without
  alpha blending, without encoding and without an output file.
\<close>

theorem invalid_background_terminates:
  "main demo_env bad_background_args =
     ([Stderr ''JPEG XL decoder v0.9.0'', VerbosePrintf 1 ''Read 3 compressed bytes.'',
       EnterPixelDecode,
       CallDecodeToPixels
         [\<lparr>num_channels = 3, data_type = JXL_TYPE_UINT8,
            endianness = JXL_NATIVE_ENDIAN, align = 0\<rparr>,
          \<lparr>num_channels = 4, data_type = JXL_TYPE_UINT8,
            endianness = JXL_NATIVE_ENDIAN, align = 0\<rparr>] False True,
       NotifyElapsed, SetImageSize,
       VerbosePrintf 0 ''Decoded to pixels.''],
      Terminate invalid_argument)"
  by (simp add: main_eval parse_eval AddFormatsWithAlphaChannel_def alpha_loop.simps
      add_format_def demo_env_def demo_encoder_def bad_background_args_def png_args_def
      default_args_def)

theorem invalid_background_terminates_witness:
  "snd (main demo_env bad_background_args) \<noteq> EXIT_SUCCESS
   \<and> filter is_blend_call (fst (main demo_env bad_background_args)) = []
   \<and> filter is_encode_call (fst (main demo_env bad_background_args)) = []
   \<and> filter is_main_write (fst (main demo_env bad_background_args)) = []"
  using invalid_background_terminates
  by (simp add: is_blend_call_def is_encode_call_def is_main_write_def)

end
